theory Spec2Isabelle
  imports Main
begin

section \<open>Text\<close>

text \<open>
  A Python \<open>str\<close> is a sequence of Unicode code points, so a text is a list of code
  points. The program's own literals are ASCII and are written as HOL strings, converted
  by \<open>U\<close>; the two keyword delimiters beyond ASCII are given by their code points.
\<close>

type_synonym ustr = "nat list"

definition U :: "string \<Rightarrow> ustr" where
  "U s = map of_char s"

definition newline :: nat where
  "newline = 10"

definition middle_dot :: nat where
  "middle_dot = 183"

definition bullet :: nat where
  "bullet = 8226"

text \<open>
  \<open>str.isspace\<close> on one code point; \<open>str.strip()\<close>, \<open>str.split()\<close> and the
  pattern class \<open>\s\<close> all use this table.
\<close>

definition is_space :: "nat \<Rightarrow> bool" where
  "is_space c = ((9 \<le> c \<and> c \<le> 13) \<or> (28 \<le> c \<and> c \<le> 32) \<or> c = 133 \<or> c = 160
      \<or> c = 5760 \<or> (8192 \<le> c \<and> c \<le> 8202) \<or> c = 8232 \<or> c = 8233 \<or> c = 8239
      \<or> c = 8287 \<or> c = 12288)"

text \<open>
  The pattern class \<open>\d\<close>. The ASCII digits are modelled; the decimal digits of other
  scripts, which Python's class also accepts, are outside the model.
\<close>

definition is_digit :: "nat \<Rightarrow> bool" where
  "is_digit c = (48 \<le> c \<and> c \<le> 57)"

definition is_upper_AZ :: "nat \<Rightarrow> bool" where
  "is_upper_AZ c = (65 \<le> c \<and> c \<le> 90)"

text \<open>
  A lower-case ASCII letter \<open>l\<close> of a pattern compiled with \<open>(?i)\<close> accepts the
  code points whose lower case is \<open>l\<close>: the letter, its capital, and for \<open>i\<close>,
  \<open>s\<close> and \<open>k\<close> the code points U+0130, U+0131, U+017F and U+212A.
\<close>

definition ci_eq :: "nat \<Rightarrow> nat \<Rightarrow> bool" where
  "ci_eq l c = (c = l \<or> (97 \<le> l \<and> l \<le> 122 \<and> c + 32 = l)
      \<or> (l = 105 \<and> (c = 304 \<or> c = 305)) \<or> (l = 115 \<and> c = 383) \<or> (l = 107 \<and> c = 8490))"

text \<open>\<open>s.strip()\<close>\<close>

definition strip :: "ustr \<Rightarrow> ustr" where
  "strip s = rev (dropWhile is_space (rev (dropWhile is_space s)))"

text \<open>\<open>s.split()\<close>: the maximal runs of code points that are not whitespace.\<close>

fun split_ws_aux :: "ustr \<Rightarrow> ustr \<Rightarrow> ustr list" where
  "split_ws_aux w [] = (if w = [] then [] else [w])"
| "split_ws_aux w (c # cs) =
     (if is_space c then (if w = [] then split_ws_aux [] cs else w # split_ws_aux [] cs)
      else split_ws_aux (w @ [c]) cs)"

definition split_ws :: "ustr \<Rightarrow> ustr list" where
  "split_ws s = split_ws_aux [] s"

text \<open>
  \<open>s.split(sep)\<close> for a one-character separator and \<open>re.split\<close> on a character
  class: the pieces between the separators, empty pieces included, so that a text with
  \<open>n\<close> separators gives \<open>n + 1\<close> pieces.
\<close>

fun split_on :: "(nat \<Rightarrow> bool) \<Rightarrow> ustr \<Rightarrow> ustr list" where
  "split_on d [] = [[]]"
| "split_on d (c # cs) =
     (if d c then [] # split_on d cs
      else (case split_on d cs of [] \<Rightarrow> [[c]] | w # ws \<Rightarrow> (c # w) # ws))"

text \<open>\<open>sep.join(xs)\<close>\<close>

fun join :: "ustr \<Rightarrow> ustr list \<Rightarrow> ustr" where
  "join sep [] = []"
| "join sep [x] = x"
| "join sep (x # y # ys) = x @ sep @ join sep (y # ys)"

text \<open>\<open>str(n)\<close> for a natural number.\<close>

definition digit_char :: "nat \<Rightarrow> char" where
  "digit_char d = ''0123456789'' ! d"

function str_nat :: "nat \<Rightarrow> string" where
  "str_nat n = (if n < 10 then [digit_char n] else str_nat (n div 10) @ [digit_char (n mod 10)])"
  by pat_completeness auto
termination
  by (relation "measure id") auto

declare str_nat.simps [simp del]

section \<open>Regular expressions\<close>

text \<open>
  The patterns of the program use character classes, literals, greedy repetition of a
  class, optional groups, alternation and the end anchor. \<open>rmatch r s\<close> lists, in the
  order in which Python's backtracking matcher tries them, the remainders of \<open>s\<close> after
  a match of \<open>r\<close> at its start: \<open>re.match\<close> succeeds when the list is not empty, and
  the match it reports ends where the first remainder begins.
\<close>

datatype cclass =
    Lit nat
  | CI nat
  | Space
  | Digit
  | UpperAZ
  | Dot
  | OneOf "nat list"

fun cmatch :: "cclass \<Rightarrow> nat \<Rightarrow> bool" where
  "cmatch (Lit l) c = (c = l)"
| "cmatch (CI l) c = ci_eq l c"
| "cmatch Space c = is_space c"
| "cmatch Digit c = is_digit c"
| "cmatch UpperAZ c = is_upper_AZ c"
| "cmatch Dot c = (c \<noteq> newline)"
| "cmatch (OneOf ls) c = (c \<in> set ls)"

datatype regex =
    Atom cclass
  | Star cclass
  | Plus cclass
  | Opt regex
  | Seq regex regex
  | Alt regex regex
  | Eps
  | Eol

text \<open>Greedy repetition: the longest run first, then each shorter one.\<close>

fun star_rem :: "cclass \<Rightarrow> ustr \<Rightarrow> ustr list" where
  "star_rem k [] = [[]]"
| "star_rem k (c # cs) = (if cmatch k c then star_rem k cs @ [c # cs] else [c # cs])"

fun rmatch :: "regex \<Rightarrow> ustr \<Rightarrow> ustr list" where
  "rmatch (Atom k) s = (case s of [] \<Rightarrow> [] | c # cs \<Rightarrow> if cmatch k c then [cs] else [])"
| "rmatch (Star k) s = star_rem k s"
| "rmatch (Plus k) s = (case s of [] \<Rightarrow> [] | c # cs \<Rightarrow> if cmatch k c then star_rem k cs else [])"
| "rmatch (Opt r) s = rmatch r s @ [s]"
| "rmatch (Seq a b) s = concat (map (rmatch b) (rmatch a s))"
| "rmatch (Alt a b) s = rmatch a s @ rmatch b s"
| "rmatch Eps s = [s]"
| "rmatch Eol s = (if s = [] \<or> s = [newline] then [s] else [])"

text \<open>\<open>re.match(p, s)\<close> as a truth value.\<close>

definition re_match :: "regex \<Rightarrow> ustr \<Rightarrow> bool" where
  "re_match r s = (rmatch r s \<noteq> [])"

text \<open>
  \<open>re.sub(p, '', s)\<close> for a pattern that starts with \<open>^\<close> and matches no empty
  text: only a match at the start of \<open>s\<close> can be replaced.
\<close>

definition re_sub_prefix :: "regex \<Rightarrow> ustr \<Rightarrow> ustr" where
  "re_sub_prefix r s = (case rmatch r s of [] \<Rightarrow> s | t # _ \<Rightarrow> t)"

text \<open>
  The text of a group: \<open>re_group pre g post s\<close> is what the group \<open>g\<close> holds after
  \<open>re.match\<close> of the pattern \<open>pre (g) post\<close> on \<open>s\<close>, and \<open>None\<close> when there
  is no match.
\<close>

definition re_group :: "regex \<Rightarrow> regex \<Rightarrow> regex \<Rightarrow> ustr \<Rightarrow> ustr option" where
  "re_group pre g post s =
     (case concat (map (\<lambda>r1. concat (map (\<lambda>r2.
              map (\<lambda>_. take (length r1 - length r2) r1) (rmatch post r2)) (rmatch g r1)))
            (rmatch pre s)) of
        [] \<Rightarrow> None
      | x # _ \<Rightarrow> Some x)"

text \<open>A sequence of patterns, a choice of patterns, and a case-insensitive word.\<close>

fun seqs :: "regex list \<Rightarrow> regex" where
  "seqs [] = Eps"
| "seqs [r] = r"
| "seqs (r # rs) = Seq r (seqs rs)"

fun alts :: "regex list \<Rightarrow> regex" where
  "alts [] = Eps"
| "alts [r] = r"
| "alts (r # rs) = Alt r (alts rs)"

definition ci :: "string \<Rightarrow> regex" where
  "ci w = seqs (map (\<lambda>c. Atom (CI (of_char c))) w)"

definition lit :: "char \<Rightarrow> regex" where
  "lit c = Atom (Lit (of_char c))"

section \<open>The document parser\<close>

text \<open>
  \<open>SECTION_PATTERNS\<close>, in the order of the dictionary. Every pattern is compiled with
  \<open>(?i)\<close>; \<open>num_prefix d\<close> is the optional group \<open>(d\.?\s*)?\<close>.
\<close>

definition num_prefix :: "char \<Rightarrow> regex" where
  "num_prefix d = Opt (seqs [lit d, Opt (lit CHR ''.''), Star Space])"

definition introduction_pattern :: regex where
  "introduction_pattern =
     seqs [Star Space, num_prefix CHR ''1'', ci ''introduction'', Star Space, Eol]"

definition related_work_pattern :: regex where
  "related_work_pattern =
     seqs [Star Space, num_prefix CHR ''2'',
       alts [seqs [ci ''related'', Star Space, ci ''work''],
             seqs [ci ''literature'', Star Space, ci ''review''],
             ci ''background''],
       Star Space, Eol]"

definition methodology_pattern :: regex where
  "methodology_pattern =
     seqs [Star Space, num_prefix CHR ''3'',
       alts [ci ''methodology'',
             seqs [ci ''proposed'', Star Space,
                   alts [ci ''method'', ci ''approach'', ci ''system'']],
             seqs [ci ''method'', Opt (ci ''s'')]],
       Star Space, Eol]"

definition results_pattern :: regex where
  "results_pattern =
     seqs [Star Space, num_prefix CHR ''4'',
       alts [seqs [ci ''result'', Opt (ci ''s'')],
             seqs [ci ''experiment'', Opt (ci ''s'')],
             ci ''evaluation'',
             seqs [ci ''experimental'', Star Space, ci ''results'']],
       Star Space, Eol]"

definition discussion_pattern :: regex where
  "discussion_pattern =
     seqs [Star Space, num_prefix CHR ''5'', ci ''discussion'', Star Space, Eol]"

definition conclusion_pattern :: regex where
  "conclusion_pattern =
     seqs [Star Space, num_prefix CHR ''6'',
       alts [seqs [ci ''conclusion'', Opt (ci ''s'')],
             ci ''summary'',
             seqs [ci ''future'', Star Space, ci ''work'']],
       Star Space, Eol]"

definition references_pattern :: regex where
  "references_pattern = seqs [Star Space, ci ''reference'', Opt (ci ''s''), Star Space, Eol]"

definition acknowledgments_pattern :: regex where
  "acknowledgments_pattern =
     seqs [Star Space, ci ''acknowledg'', Opt (ci ''e''), ci ''ment'', Opt (ci ''s''),
           Star Space, Eol]"

definition SECTION_PATTERNS :: "(string \<times> regex) list" where
  "SECTION_PATTERNS =
     [(''introduction'', introduction_pattern),
      (''related_work'', related_work_pattern),
      (''methodology'', methodology_pattern),
      (''results'', results_pattern),
      (''discussion'', discussion_pattern),
      (''conclusion'', conclusion_pattern),
      (''references'', references_pattern),
      (''acknowledgments'', acknowledgments_pattern)]"

text \<open>The generic numbered heading \<open>^\s*\d+\.?\s+[A-Z]\<close> (case-sensitive).\<close>

definition numbered_pattern :: regex where
  "numbered_pattern =
     seqs [Star Space, Plus Digit, Opt (lit CHR ''.''), Plus Space, Atom UpperAZ]"

text \<open>\<open>(?i)^\s*abstract\.?\s*\<close>\<close>

definition abstract_pattern :: regex where
  "abstract_pattern = seqs [Star Space, ci ''abstract'', Opt (lit CHR ''.''), Star Space]"

text \<open>\<open>(?i)^\s*keywords?\.?\s*:\<close>, which ends an abstract.\<close>

definition keywords_stop_pattern :: regex where
  "keywords_stop_pattern =
     seqs [Star Space, ci ''keyword'', Opt (ci ''s''), Opt (lit CHR ''.''), Star Space,
           lit CHR '':'']"

text \<open>
  \<open>(?i)^\s*keywords?\.?\s*:?\s*(.+)$\<close>: the part before the group; the group is
  \<open>Plus Dot\<close> and \<open>Eol\<close> follows it.
\<close>

definition keywords_prefix :: regex where
  "keywords_prefix =
     seqs [Star Space, ci ''keyword'', Opt (ci ''s''), Opt (lit CHR ''.''), Star Space,
           Opt (lit CHR '':''), Star Space]"

text \<open>\<open>^\s*\[?\d+\]?[\.\)]\s*\<close>, the numbering of a reference entry.\<close>

definition reference_number_pattern :: regex where
  "reference_number_pattern =
     seqs [Star Space, Opt (lit CHR ''[''), Plus Digit, Opt (lit CHR '']''),
           Atom (OneOf [of_char CHR ''.'', of_char CHR '')'']), Star Space]"

text \<open>\<open>^\s*\d+\.?\s*\<close>, the numbering of a heading.\<close>

definition heading_number_pattern :: regex where
  "heading_number_pattern = seqs [Star Space, Plus Digit, Opt (lit CHR ''.''), Star Space]"

fun first_match :: "(string \<times> regex) list \<Rightarrow> ustr \<Rightarrow> string option" where
  "first_match [] s = None"
| "first_match ((t, r) # ps) s = (if re_match r s then Some t else first_match ps s)"

definition get_section_type :: "ustr \<Rightarrow> string option" where
  "get_section_type s =
     (case first_match SECTION_PATTERNS s of
        Some t \<Rightarrow> Some t
      | None \<Rightarrow> if re_match numbered_pattern s then Some ''numbered_section'' else None)"

definition is_section_heading :: "ustr \<Rightarrow> bool" where
  "is_section_heading s =
     (if list_ex (\<lambda>(t, r). re_match r s) SECTION_PATTERNS then True
      else re_match numbered_pattern s)"

subsection \<open>Sections\<close>

record doc_section =
  stype :: string
  stitle :: ustr
  scontent :: ustr
  start_index :: nat

text \<open>
  The loop of \<open>detect_sections\<close>: \<open>i\<close> is the index of the paragraph at hand,
  \<open>secs\<close> the sections closed so far, \<open>cur\<close> the open section (type, title and
  start index) and \<open>cc\<close> its paragraphs so far.
\<close>

definition close_section :: "string \<times> ustr \<times> nat \<Rightarrow> ustr list \<Rightarrow> doc_section" where
  "close_section cur cc =
     (case cur of (t, ttl, st) \<Rightarrow>
        \<lparr>stype = t, stitle = ttl, scontent = join [newline] cc, start_index = st\<rparr>)"

fun detect_loop ::
  "nat \<Rightarrow> ustr list \<Rightarrow> doc_section list \<Rightarrow> (string \<times> ustr \<times> nat) option \<Rightarrow> ustr list
     \<Rightarrow> doc_section list" where
  "detect_loop i [] secs cur cc =
     (case cur of None \<Rightarrow> secs | Some c \<Rightarrow> secs @ [close_section c cc])"
| "detect_loop i (p # ps) secs cur cc =
     (case get_section_type p of
        Some t \<Rightarrow>
          detect_loop (Suc i) ps
            (case cur of None \<Rightarrow> secs | Some c \<Rightarrow> secs @ [close_section c cc])
            (Some (t, p, i)) []
      | None \<Rightarrow>
          (case cur of
             Some c \<Rightarrow> detect_loop (Suc i) ps secs cur (cc @ [p])
           | None \<Rightarrow> detect_loop (Suc i) ps secs cur cc))"

definition detect_sections :: "ustr list \<Rightarrow> doc_section list" where
  "detect_sections paragraphs = detect_loop 0 paragraphs [] None []"

subsection \<open>References\<close>

fun references_loop :: "ustr list \<Rightarrow> bool \<Rightarrow> ustr list \<Rightarrow> ustr list" where
  "references_loop refs in_references [] = refs"
| "references_loop refs in_references (p # ps) =
     (if re_match references_pattern p then references_loop refs True ps
      else if in_references then
        (if re_match reference_number_pattern p \<or> p \<noteq> []
         then references_loop (refs @ [p]) in_references ps
         else references_loop refs in_references ps)
      else references_loop refs in_references ps)"

definition extract_references :: "ustr list \<Rightarrow> ustr list" where
  "extract_references paragraphs = references_loop [] False paragraphs"

subsection \<open>Abstract\<close>

record abstract =
  atext :: ustr
  word_count :: nat
  is_valid :: bool

text \<open>
  The loop of \<open>extract_abstract\<close>; the \<open>break\<close> returns the text accumulated so
  far.
\<close>

fun abstract_loop :: "ustr \<Rightarrow> bool \<Rightarrow> ustr list \<Rightarrow> ustr" where
  "abstract_loop abstract_text abstract_started [] = abstract_text"
| "abstract_loop abstract_text abstract_started (p # ps) =
     (if re_match abstract_pattern p
      then abstract_loop (re_sub_prefix abstract_pattern p) True ps
      else if abstract_started then
        (if re_match keywords_stop_pattern p \<or> is_section_heading p then abstract_text
         else abstract_loop (abstract_text @ U '' '' @ p) abstract_started ps)
      else abstract_loop abstract_text abstract_started ps)"

definition extract_abstract :: "ustr list \<Rightarrow> abstract" where
  "extract_abstract paragraphs =
     (let abstract_text = abstract_loop [] False paragraphs;
          wc = (if abstract_text \<noteq> [] then length (split_ws abstract_text) else 0)
      in \<lparr>atext = strip abstract_text, word_count = wc, is_valid = (150 \<le> wc \<and> wc \<le> 250)\<rparr>)"

subsection \<open>Keywords\<close>

definition is_keyword_delimiter :: "nat \<Rightarrow> bool" where
  "is_keyword_delimiter c =
     (c = of_char CHR '','' \<or> c = of_char CHR '';'' \<or> c = middle_dot \<or> c = bullet)"

text \<open>
  The comprehension \<open>[k.strip() for k in re.split(r'[,;..]', keyword_text) if k.strip()]\<close>
\<close>

definition split_keywords :: "ustr \<Rightarrow> ustr list" where
  "split_keywords keyword_text =
     map strip (filter (\<lambda>k. strip k \<noteq> []) (split_on is_keyword_delimiter keyword_text))"

fun extract_keywords :: "ustr list \<Rightarrow> ustr list" where
  "extract_keywords [] = []"
| "extract_keywords (p # ps) =
     (case re_group keywords_prefix (Plus Dot) Eol p of
        Some keyword_text \<Rightarrow> split_keywords keyword_text
      | None \<Rightarrow> extract_keywords ps)"

section \<open>The style applier\<close>

text \<open>
  The output document is the list of its paragraphs in order. A paragraph has the style
  and alignment the code sets and its runs; a run has its text or picture, its size in
  points and its bold, italic and superscript flags. The font family, which is the same
  constant everywhere, and the spacing and indentation of paragraphs are left out.
\<close>

datatype alignment = CENTER

datatype run_content = Text ustr | Picture ustr

record run =
  rcontent :: run_content
  font_size :: "nat option"
  bold :: bool
  italic :: bool
  superscript :: bool

record docx_paragraph =
  pstyle :: "string option"
  palignment :: "alignment option"
  runs :: "run list"

definition text_run :: "ustr \<Rightarrow> nat option \<Rightarrow> run" where
  "text_run t sz =
     \<lparr>rcontent = Text t, font_size = sz, bold = False, italic = False, superscript = False\<rparr>"

record author =
  name :: ustr
  email :: "ustr option"
  affiliation :: "ustr option"

record parsed_content =
  title :: ustr
  authors :: "author list"
  abstract :: abstract
  "keywords" :: "ustr list"
  sections :: "doc_section list"
  references :: "ustr list"
  raw_paragraphs :: "ustr list"

text \<open>An entry of \<open>images_data\<close>; the width, always 5.5 inches, is left out.\<close>

record image_data =
  path :: ustr
  caption :: ustr
  number :: nat
  original_path :: ustr

record style_applier =
  document :: "docx_paragraph list"
  figure_counter :: nat
  table_counter :: nat
  changes_log :: "string list"

definition init_applier :: style_applier where
  "init_applier = \<lparr>document = [], figure_counter = 0, table_counter = 0, changes_log = []\<rparr>"

text \<open>\<open>self.document.add_paragraph()\<close> with its runs, and \<open>self.changes_log.append\<close>.\<close>

definition add_paragraph :: "style_applier \<Rightarrow> docx_paragraph \<Rightarrow> style_applier" where
  "add_paragraph s p = s\<lparr>document := document s @ [p]\<rparr>"

definition log_change :: "style_applier \<Rightarrow> string \<Rightarrow> style_applier" where
  "log_change s e = s\<lparr>changes_log := changes_log s @ [e]\<rparr>"

text \<open>
  \<open>create_new_document\<close>: a fresh, empty document; \<open>_setup_page_layout\<close> writes the
  first log entry and \<open>_create_styles\<close> writes none.
\<close>

definition create_new_document :: "style_applier \<Rightarrow> style_applier" where
  "create_new_document s = log_change (s\<lparr>document := []\<rparr>) ''Page margins set to 2.5cm all sides''"

definition title_paragraph :: "ustr \<Rightarrow> docx_paragraph" where
  "title_paragraph t =
     \<lparr>pstyle = Some ''LNCS Title'', palignment = Some CENTER,
      runs = [(text_run t (Some 14))\<lparr>bold := True\<rparr>]\<rparr>"

definition add_title :: "style_applier \<Rightarrow> ustr \<Rightarrow> style_applier" where
  "add_title s t =
     log_change (add_paragraph s (title_paragraph t)) ''Title formatted (14pt, Bold, Center)''"

text \<open>
  The runs of the author line: \<open>i\<close> is the index of the first author of the list, and
  an author who is not the last is followed by a comma.
\<close>

fun author_runs :: "nat \<Rightarrow> author list \<Rightarrow> run list" where
  "author_runs i [] = []"
| "author_runs i (a # as) =
     [text_run (name a) (Some 11), (text_run (U (str_nat (i + 1))) (Some 8))\<lparr>superscript := True\<rparr>]
     @ (if as \<noteq> [] then [text_run (U '', '') None] else [])
     @ author_runs (Suc i) as"

definition authors_paragraph :: "author list \<Rightarrow> docx_paragraph" where
  "authors_paragraph as = \<lparr>pstyle = None, palignment = Some CENTER, runs = author_runs 0 as\<rparr>"

definition add_authors :: "style_applier \<Rightarrow> author list \<Rightarrow> style_applier" where
  "add_authors s as =
     (if as = [] then s
      else log_change (add_paragraph s (authors_paragraph as))
             ''Authors formatted with superscript affiliations'')"

definition abstract_paragraph :: "ustr \<Rightarrow> docx_paragraph" where
  "abstract_paragraph t =
     \<lparr>pstyle = None, palignment = None,
      runs = [(text_run (U ''Abstract. '') (Some 10))\<lparr>bold := True\<rparr>,
              (text_run t (Some 10))\<lparr>italic := True\<rparr>]\<rparr>"

definition add_abstract :: "style_applier \<Rightarrow> abstract \<Rightarrow> style_applier" where
  \<open>add_abstract s abstract_data =
     (let abstract_text = atext abstract_data in
      if abstract_text = [] then s
      else log_change (add_paragraph s (abstract_paragraph abstract_text))
             ''Abstract prefixed with "Abstract." (10pt, Italic)'')\<close>

definition join_keywords :: "ustr list \<Rightarrow> ustr" where
  "join_keywords ks = join (U '' '' @ [middle_dot] @ U '' '') ks"

definition keywords_paragraph :: "ustr list \<Rightarrow> docx_paragraph" where
  "keywords_paragraph ks =
     \<lparr>pstyle = None, palignment = None,
      runs = [(text_run (U ''Keywords: '') (Some 10))\<lparr>bold := True\<rparr>,
              text_run (join_keywords ks) (Some 10)]\<rparr>"

definition add_keywords :: "style_applier \<Rightarrow> ustr list \<Rightarrow> style_applier" where
  "add_keywords s ks =
     (if ks = [] then s
      else log_change (add_paragraph s (keywords_paragraph ks))
             (''Keywords formatted ('' @ str_nat (length ks) @ '' keywords)''))"

definition level_1_sections :: "string list" where
  "level_1_sections =
     [''introduction'', ''related_work'', ''methodology'', ''results'', ''discussion'',
      ''conclusion'', ''references'']"

definition get_heading_level :: "string \<Rightarrow> nat" where
  "get_heading_level section_type =
     (if section_type \<in> set level_1_sections then 1
      else if section_type = ''numbered_section'' then 1
      else 2)"

definition heading_paragraph :: "ustr \<Rightarrow> nat \<Rightarrow> docx_paragraph" where
  "heading_paragraph txt level =
     \<lparr>pstyle = None, palignment = None,
      runs = [(text_run (re_sub_prefix heading_number_pattern txt)
                (Some (if level = 1 then 12 else if level = 2 then 11 else 10)))\<lparr>bold := True\<rparr>]\<rparr>"

definition add_heading :: "style_applier \<Rightarrow> ustr \<Rightarrow> nat \<Rightarrow> style_applier" where
  "add_heading s txt level = add_paragraph s (heading_paragraph txt level)"

definition body_paragraph :: "ustr \<Rightarrow> docx_paragraph" where
  "body_paragraph txt = \<lparr>pstyle = None, palignment = None, runs = [text_run txt (Some 11)]\<rparr>"

definition add_body_paragraph :: "style_applier \<Rightarrow> ustr \<Rightarrow> style_applier" where
  "add_body_paragraph s txt = add_paragraph s (body_paragraph txt)"

fun add_body_paragraphs :: "style_applier \<Rightarrow> ustr list \<Rightarrow> style_applier" where
  "add_body_paragraphs s [] = s"
| "add_body_paragraphs s (para_text # rest) =
     add_body_paragraphs
       (if strip para_text \<noteq> [] then add_body_paragraph s (strip para_text) else s) rest"

definition add_section :: "style_applier \<Rightarrow> doc_section \<Rightarrow> style_applier" where
  "add_section s sec =
     (let s1 = add_heading s (stitle sec) (get_heading_level (stype sec)) in
      if scontent sec \<noteq> [] then add_body_paragraphs s1 (split_on (\<lambda>c. c = newline) (scontent sec))
      else s1)"

fun add_sections :: "style_applier \<Rightarrow> doc_section list \<Rightarrow> style_applier" where
  "add_sections s [] = s"
| "add_sections s (sec # rest) = add_sections (add_section s sec) rest"

text \<open>
  \<open>add_figure\<close>: \<open>exists\<close> is \<open>os.path.exists\<close>; inserting the picture of a file
  that exists is taken to succeed.
\<close>

definition picture_paragraph :: "ustr \<Rightarrow> docx_paragraph" where
  "picture_paragraph image_path =
     \<lparr>pstyle = None, palignment = Some CENTER,
      runs = [\<lparr>rcontent = Picture image_path, font_size = None, bold = False, italic = False,
               superscript = False\<rparr>]\<rparr>"

definition caption_paragraph :: "nat \<Rightarrow> ustr \<Rightarrow> docx_paragraph" where
  "caption_paragraph n caption_text =
     \<lparr>pstyle = None, palignment = Some CENTER,
      runs = [(text_run (U (''Fig. '' @ str_nat n @ ''. '')) (Some 10))\<lparr>bold := True\<rparr>,
              text_run caption_text (Some 10)]\<rparr>"

definition add_figure ::
  "(ustr \<Rightarrow> bool) \<Rightarrow> style_applier \<Rightarrow> ustr \<Rightarrow> ustr option \<Rightarrow> style_applier" where
  "add_figure exists s image_path cap =
     (let s1 = s\<lparr>figure_counter := figure_counter s + 1\<rparr>;
          s2 = (if exists image_path then add_paragraph s1 (picture_paragraph image_path) else s1);
          caption_text =
            (case cap of
               None \<Rightarrow> U (''Description of figure '' @ str_nat (figure_counter s1))
             | Some c \<Rightarrow>
                 if c \<noteq> [] then c else U (''Description of figure '' @ str_nat (figure_counter s1)));
          s3 = add_paragraph s2 (caption_paragraph (figure_counter s1) caption_text)
      in log_change s3 (''Figure '' @ str_nat (figure_counter s1) @ '' inserted with caption''))"

fun insert_images_at_positions ::
  "(ustr \<Rightarrow> bool) \<Rightarrow> style_applier \<Rightarrow> image_data list \<Rightarrow> style_applier" where
  "insert_images_at_positions exists s [] = s"
| "insert_images_at_positions exists s (img_info # rest) =
     insert_images_at_positions exists
       (add_figure exists s (path img_info) (Some (caption img_info))) rest"

definition reference_paragraph :: "nat \<Rightarrow> ustr \<Rightarrow> docx_paragraph" where
  "reference_paragraph i ref =
     \<lparr>pstyle = None, palignment = None,
      runs = [text_run (U (''['' @ str_nat i @ ''] '')) (Some 9),
              text_run (re_sub_prefix reference_number_pattern ref) (Some 9)]\<rparr>"

fun add_reference_entries :: "style_applier \<Rightarrow> nat \<Rightarrow> ustr list \<Rightarrow> style_applier" where
  "add_reference_entries s i [] = s"
| "add_reference_entries s i (ref # rest) =
     add_reference_entries (add_paragraph s (reference_paragraph i ref)) (Suc i) rest"

definition add_references :: "style_applier \<Rightarrow> ustr list \<Rightarrow> style_applier" where
  "add_references s refs =
     (if refs = [] then s
      else log_change (add_reference_entries (add_heading s (U ''References'') 1) 1 refs)
             (''References formatted: '' @ str_nat (length refs) @ '' items''))"

text \<open>
  \<open>apply_springer_style\<close>. The abstract of a parsed document is a dictionary with
  three keys, which is never empty, so \<open>add_abstract\<close> is always called.
\<close>

definition apply_springer_style :: "style_applier \<Rightarrow> parsed_content \<Rightarrow> style_applier" where
  "apply_springer_style s parsed =
     (let s0 = (create_new_document s)\<lparr>figure_counter := 0, table_counter := 0\<rparr>;
          s1 = (if title parsed \<noteq> [] then add_title s0 (title parsed) else s0);
          s2 = (if authors parsed \<noteq> [] then add_authors s1 (authors parsed) else s1);
          s3 = add_abstract s2 (abstract parsed);
          s4 = (if keywords parsed \<noteq> [] then add_keywords s3 (keywords parsed) else s3);
          s5 = (if sections parsed \<noteq> [] then add_sections s4 (sections parsed) else s4)
      in if references parsed \<noteq> [] then add_references s5 (references parsed) else s5)"

text \<open>
  The rendering steps of \<open>process_document\<close>: a new \<open>StyleApplier\<close>, the styles
  applied to the parsed content, then the images when there are any.
\<close>

definition render ::
  "(ustr \<Rightarrow> bool) \<Rightarrow> parsed_content \<Rightarrow> image_data list \<Rightarrow> style_applier" where
  "render exists parsed images_data =
     (let style_applier = apply_springer_style init_applier parsed in
      if images_data \<noteq> [] then insert_images_at_positions exists style_applier images_data
      else style_applier)"

section \<open>The image processor\<close>

text \<open>
  What the imaging library sees of a file: it is missing, opening it raises an error
  with a message, or it is an image with a size, a colour mode and, when its metadata
  has one, a resolution.
\<close>

record image =
  img_width :: nat
  img_height :: nat
  img_mode :: string
  img_dpi :: "nat option"

datatype file_entry = Missing | Unreadable ustr | ImageFile image

text \<open>
  The surroundings of one call of \<open>process_image\<close>: the files, the two
  floating-point computations of the code, taken as they are, and the calls of the
  imaging library that may raise an error after the file has been opened.
  \<open>target_width_px dpi\<close> is \<open>int((target_width_cm / 2.54) * dpi)\<close>,
  \<open>scaled_height img w\<close> is \<open>int(img.height * (w / img.width))\<close>, and
  \<open>output_path n p\<close> is the path of \<open>fig_n_base.png\<close> in the output directory for
  the base name of \<open>p\<close>. \<open>convert_error img\<close> is the message of the error that the
  conversion of \<open>img\<close> to \<open>RGB\<close> raises, \<open>resize_error img size\<close> the one that
  \<open>img.resize(size, ...)\<close> raises, and \<open>save_error img p\<close> the one that
  \<open>img.save(p, 'PNG', ...)\<close> raises; each is \<open>None\<close> when the call returns.
\<close>

record process_env =
  files :: "ustr \<Rightarrow> file_entry"
  convert_error :: "image \<Rightarrow> ustr option"
  target_width_px :: "nat \<Rightarrow> nat"
  scaled_height :: "image \<Rightarrow> nat \<Rightarrow> nat"
  resize_error :: "image \<Rightarrow> nat \<times> nat \<Rightarrow> ustr option"
  output_path :: "nat \<Rightarrow> ustr \<Rightarrow> ustr"
  save_error :: "image \<Rightarrow> ustr \<Rightarrow> ustr option"

text \<open>
  The dictionary of a processed image; \<open>src_path\<close> is its key \<open>original_path\<close>.
  The result of \<open>process_image\<close> is this dictionary, or the failure with its message.
\<close>

record processed_image =
  src_path :: ustr
  original_size :: "nat \<times> nat"
  original_mode :: string
  resized :: bool
  new_size :: "nat \<times> nat"
  dpi_warning :: bool
  processed_path :: ustr
  figure_number :: nat

datatype process_result = Failed ustr | Processed processed_image

text \<open>A warning is kept as the path of the image and the resolution found.\<close>

record image_processor =
  processed_images :: "processed_image list"
  warnings :: "(ustr \<times> nat) list"

definition init_processor :: image_processor where
  "init_processor = \<lparr>processed_images = [], warnings = []\<rparr>"

definition MIN_DPI :: nat where
  "MIN_DPI = 300"

definition get_dpi :: "image \<Rightarrow> nat" where
  "get_dpi img = (case img_dpi img of None \<Rightarrow> 72 | Some d \<Rightarrow> d)"

text \<open>
  The colour mode: an image with an alpha channel is pasted on a new white image, which
  has no metadata; any other unusual mode is converted; the modes \<open>RGB\<close>, \<open>L\<close> and
  \<open>CMYK\<close> are kept, with no call of the library. The result is the error raised
  (\<open>Inl\<close>) or the image to go on with (\<open>Inr\<close>).
\<close>

definition convert_mode :: "process_env \<Rightarrow> image \<Rightarrow> ustr + image" where
  "convert_mode env img =
     (if img_mode img = ''RGBA''
      then (case convert_error env img of
              Some msg \<Rightarrow> Inl msg
            | None \<Rightarrow> Inr (img\<lparr>img_mode := ''RGB'', img_dpi := None\<rparr>))
      else if img_mode img \<notin> set [''RGB'', ''L'', ''CMYK'']
      then (case convert_error env img of
              Some msg \<Rightarrow> Inl msg
            | None \<Rightarrow> Inr (img\<lparr>img_mode := ''RGB''\<rparr>))
      else Inr img)"

text \<open>
  The resizing: only an image wider than the target is resized, and the call may raise.
  The result is the error, or whether the image was resized and the image to go on with.
\<close>

definition resize_image :: "process_env \<Rightarrow> image \<Rightarrow> ustr + bool \<times> image" where
  "resize_image env img =
     (let target = target_width_px env (get_dpi img) in
      if img_width img > target
      then (let new_height = scaled_height env img target in
            case resize_error env img (target, new_height) of
              Some msg \<Rightarrow> Inl msg
            | None \<Rightarrow> Inr (True, img\<lparr>img_width := target, img_height := new_height\<rparr>))
      else Inr (False, img))"

text \<open>
  \<open>process_image\<close>: every error raised between the opening of the file and the saving
  of the result is caught and returned as a failure. The warning about a low resolution
  is appended before the image is saved, so it stays in the processor when saving fails;
  the result is appended to \<open>processed_images\<close> only after the image has been saved.
\<close>

definition process_image ::
  "process_env \<Rightarrow> image_processor \<Rightarrow> ustr \<Rightarrow> image_processor \<times> process_result" where
  "process_image env st image_path =
     (case files env image_path of
        Missing \<Rightarrow> (st, Failed (U ''File not found: '' @ image_path))
      | Unreadable msg \<Rightarrow> (st, Failed msg)
      | ImageFile img0 \<Rightarrow>
          (case convert_mode env img0 of
             Inl msg \<Rightarrow> (st, Failed msg)
           | Inr img1 \<Rightarrow>
               (case resize_image env img1 of
                  Inl msg \<Rightarrow> (st, Failed msg)
                | Inr (is_resized, img2) \<Rightarrow>
                    (let current_dpi = get_dpi img2;
                         low = (current_dpi < MIN_DPI);
                         st1 = st\<lparr>warnings :=
                                  warnings st @ (if low then [(image_path, current_dpi)] else [])\<rparr>;
                         n = length (processed_images st1) + 1;
                         out = output_path env n image_path
                     in case save_error env img2 out of
                          Some msg \<Rightarrow> (st1, Failed msg)
                        | None \<Rightarrow>
                            (let result =
                                   \<lparr>src_path = image_path,
                                    original_size = (img_width img0, img_height img0),
                                    original_mode = img_mode img0,
                                    resized = is_resized,
                                    new_size = (img_width img2, img_height img2),
                                    dpi_warning = low,
                                    processed_path = out,
                                    figure_number = length (processed_images st1) + 1\<rparr>
                             in (st1\<lparr>processed_images := processed_images st1 @ [result]\<rparr>,
                                 Processed result))))))"

fun process_image_loop ::
  "process_env \<Rightarrow> image_processor \<Rightarrow> process_result list \<Rightarrow> ustr list
     \<Rightarrow> image_processor \<times> process_result list" where
  "process_image_loop env st results [] = (st, results)"
| "process_image_loop env st results (image_path # rest) =
     (case process_image env st image_path of
        (st', result) \<Rightarrow> process_image_loop env st' (results @ [result]) rest)"

definition process_image_list ::
  "process_env \<Rightarrow> image_processor \<Rightarrow> ustr list \<Rightarrow> image_processor \<times> process_result list" where
  "process_image_list env st image_paths = process_image_loop env st [] image_paths"

text \<open>The successful results of a list of results, in order.\<close>

fun successes :: "process_result list \<Rightarrow> processed_image list" where
  "successes [] = []"
| "successes (Failed e # rs) = successes rs"
| "successes (Processed r # rs) = r # successes rs"

text \<open>The figure number of a result, when it is a success.\<close>

fun result_number :: "process_result \<Rightarrow> nat option" where
  "result_number (Failed e) = None"
| "result_number (Processed r) = Some (figure_number r)"

section \<open>Example inputs\<close>

text \<open>
  Five image paths. The first and the last are processed. The second is missing. The
  third is a \<open>CMYK\<close> image of low resolution: its mode is kept, the warning is
  appended, and saving it as PNG raises an error. The fourth is so flat that its scaled
  height is 0, and resizing it raises an error.
\<close>

definition example_files :: "ustr \<Rightarrow> file_entry" where
  "example_files p =
     (if p = U ''a.png''
      then ImageFile \<lparr>img_width = 800, img_height = 600, img_mode = ''RGB'', img_dpi = Some 300\<rparr>
      else if p = U ''c.png''
      then ImageFile \<lparr>img_width = 640, img_height = 480, img_mode = ''CMYK'', img_dpi = None\<rparr>
      else if p = U ''d.png''
      then ImageFile \<lparr>img_width = 4000, img_height = 2, img_mode = ''RGB'', img_dpi = Some 72\<rparr>
      else if p = U ''e.png''
      then ImageFile \<lparr>img_width = 2000, img_height = 1000, img_mode = ''RGBA'', img_dpi = None\<rparr>
      else Missing)"

definition example_env :: process_env where
  "example_env =
     \<lparr>files = example_files,
      convert_error = (\<lambda>img. None),
      target_width_px = (\<lambda>dpi. (1200 * dpi) div 254),
      scaled_height = (\<lambda>img w. (img_height img * w) div img_width img),
      resize_error = (\<lambda>img (w, h). if w = 0 \<or> h = 0
                                     then Some (U ''height and width must be > 0'') else None),
      output_path = (\<lambda>n p. U (''fig_'' @ str_nat n @ ''_'') @ p),
      save_error = (\<lambda>img p. if img_mode img = ''CMYK''
                              then Some (U ''cannot write mode CMYK as PNG'') else None)\<rparr>"

definition example_paths :: "ustr list" where
  "example_paths = [U ''a.png'', U ''b.png'', U ''c.png'', U ''d.png'', U ''e.png'']"

text \<open>The paragraphs of the scenario of the specification.\<close>

definition example_paragraphs :: "ustr list" where
  "example_paragraphs =
     map U [''A Study of X'', ''Jane Doe jane@x.edu'', ''Abstract. This work presents...'',
            ''Keywords: ml, nlp'', ''1. Introduction'', ''Text.'', ''References'',
            ''[1] Smith 2020'']"

section \<open>The parts of a rendered document\<close>

text \<open>
  What each part of the parsed content adds to the document and to the log, written as
  lists: the paragraphs of the title, the authors, the abstract, the keywords, one
  section, the references and the figures, and the log entries of the fields and of the
  figures. The theorems below compare the state that the style applier builds with them.
\<close>

definition title_part :: "parsed_content \<Rightarrow> docx_paragraph list" where
  "title_part parsed = (if title parsed \<noteq> [] then [title_paragraph (title parsed)] else [])"

definition authors_part :: "parsed_content \<Rightarrow> docx_paragraph list" where
  "authors_part parsed =
     (if authors parsed \<noteq> [] then [authors_paragraph (authors parsed)] else [])"

definition abstract_part :: "parsed_content \<Rightarrow> docx_paragraph list" where
  "abstract_part parsed =
     (if atext (abstract parsed) \<noteq> [] then [abstract_paragraph (atext (abstract parsed))] else [])"

definition keywords_part :: "parsed_content \<Rightarrow> docx_paragraph list" where
  "keywords_part parsed =
     (if keywords parsed \<noteq> [] then [keywords_paragraph (keywords parsed)] else [])"

definition section_paragraphs :: "doc_section \<Rightarrow> docx_paragraph list" where
  "section_paragraphs sec =
     heading_paragraph (stitle sec) (get_heading_level (stype sec))
     # (if scontent sec \<noteq> []
        then map body_paragraph
               (filter (\<lambda>t. t \<noteq> []) (map strip (split_on (\<lambda>c. c = newline) (scontent sec))))
        else [])"

definition sections_part :: "parsed_content \<Rightarrow> docx_paragraph list" where
  "sections_part parsed = concat (map section_paragraphs (sections parsed))"

fun reference_paragraphs :: "nat \<Rightarrow> ustr list \<Rightarrow> docx_paragraph list" where
  "reference_paragraphs i [] = []"
| "reference_paragraphs i (ref # rest) = reference_paragraph i ref # reference_paragraphs (Suc i) rest"

definition references_part :: "parsed_content \<Rightarrow> docx_paragraph list" where
  "references_part parsed =
     (if references parsed \<noteq> []
      then heading_paragraph (U ''References'') 1 # reference_paragraphs 1 (references parsed)
      else [])"

text \<open>The figures, after \<open>n\<close> figures were inserted before them.\<close>

fun figure_paragraphs :: "(ustr \<Rightarrow> bool) \<Rightarrow> nat \<Rightarrow> image_data list \<Rightarrow> docx_paragraph list" where
  "figure_paragraphs exists n [] = []"
| "figure_paragraphs exists n (img # rest) =
     (if exists (path img) then [picture_paragraph (path img)] else [])
     @ [caption_paragraph (Suc n)
          (if caption img \<noteq> [] then caption img
           else U (''Description of figure '' @ str_nat (Suc n)))]
     @ figure_paragraphs exists (Suc n) rest"

fun figure_log :: "nat \<Rightarrow> image_data list \<Rightarrow> string list" where
  "figure_log n [] = []"
| "figure_log n (img # rest) =
     (''Figure '' @ str_nat (Suc n) @ '' inserted with caption'') # figure_log (Suc n) rest"

definition fields_log :: "parsed_content \<Rightarrow> string list" where
  \<open>fields_log parsed =
     [''Page margins set to 2.5cm all sides'']
     @ (if title parsed \<noteq> [] then [''Title formatted (14pt, Bold, Center)''] else [])
     @ (if authors parsed \<noteq> [] then [''Authors formatted with superscript affiliations''] else [])
     @ (if atext (abstract parsed) \<noteq> []
        then [''Abstract prefixed with "Abstract." (10pt, Italic)''] else [])
     @ (if keywords parsed \<noteq> []
        then [''Keywords formatted ('' @ str_nat (length (keywords parsed)) @ '' keywords)'']
        else [])
     @ (if references parsed \<noteq> []
        then [''References formatted: '' @ str_nat (length (references parsed)) @ '' items'']
        else [])\<close>

text \<open>
  The parsed content of the scenario of the specification, and one processed image
  whose file exists.
\<close>

definition example_parsed :: parsed_content where
  "example_parsed =
     \<lparr>title = U ''A Study of X'',
      authors = [\<lparr>name = U ''Jane Doe'', email = Some (U ''jane@x.edu''), affiliation = None\<rparr>],
      abstract = \<lparr>atext = U ''This work presents...'', word_count = 3, is_valid = False\<rparr>,
      keywords = [U ''ml'', U ''nlp''],
      sections = [\<lparr>stype = ''introduction'', stitle = U ''1. Introduction'',
                   scontent = U ''Text.'', start_index = 4\<rparr>],
      references = [U ''[1] Smith 2020''],
      raw_paragraphs = example_paragraphs\<rparr>"

definition example_images :: "image_data list" where
  "example_images =
     [\<lparr>path = U ''out/fig_1_chart.png'', caption = U ''Chart'', number = 1,
       original_path = U ''chart.png''\<rparr>]"

section \<open>Headings with an optional number\<close>

text \<open>
  The texts that the specification calls a heading with an optional leading number \<open>n\<close>
  (a digit, given by its code point): whitespace, then nothing, the digit, or the digit
  and a full stop, then whitespace, then a text that starts with neither whitespace nor
  a digit and that is accepted.
\<close>

definition optionally_numbered :: "nat \<Rightarrow> (ustr \<Rightarrow> bool) \<Rightarrow> ustr \<Rightarrow> bool" where
  "optionally_numbered n accepts s =
     (\<exists>a num b t. s = a @ num @ b @ t \<and> list_all is_space a \<and> num \<in> set [[], [n], [n, 46]]
        \<and> list_all is_space b
        \<and> (\<exists>c cs. t = c # cs \<and> \<not> is_space c \<and> \<not> is_digit c) \<and> accepts t)"

section \<open>Heading levels\<close>

text \<open>
  C3, as the specification states it, gives level 1 to all eight canonical section types.
  The list \<open>level_1_sections\<close> of the code has seven of them: a section of type
  \<open>acknowledgments\<close> gets level 2.
\<close>

theorem heading_level_acknowledgments_counterexample:
  "get_heading_level ''acknowledgments'' = 2"
  by (simp add: get_heading_level_def level_1_sections_def)

text \<open>
  C3, amended: the heading level is 1 for the types introduction, related_work,
  methodology, results, discussion, conclusion, references and numbered_section, and 2
  for every other type, acknowledgments among them.
\<close>

theorem get_heading_level_by_type:
  "get_heading_level t =
     (if t \<in> {''introduction'', ''related_work'', ''methodology'', ''results'', ''discussion'',
               ''conclusion'', ''references'', ''numbered_section''} then 1 else 2)"
  by (simp add: get_heading_level_def level_1_sections_def)

theorem get_heading_level_by_type_witness:
  "get_heading_level ''introduction'' = 1 \<and> get_heading_level ''numbered_section'' = 1
   \<and> get_heading_level ''appendix'' = 2"
  using get_heading_level_by_type [of "''introduction''"]
    get_heading_level_by_type [of "''numbered_section''"]
    get_heading_level_by_type [of "''appendix''"]
  by simp

section \<open>Figure numbers of processed images\<close>

text \<open>
  One call: a failure, wherever it is raised, leaves \<open>processed_images\<close> as it was; a
  success appends its result, whose number is the new length of the list.
\<close>

lemma process_image_result:
  "process_image env st p = (st', r) \<Longrightarrow>
     (case r of
        Failed e \<Rightarrow> processed_images st' = processed_images st
      | Processed x \<Rightarrow>
          processed_images st' = processed_images st @ [x]
          \<and> figure_number x = Suc (length (processed_images st))
          \<and> src_path x = p)"
  by (auto simp: process_image_def Let_def
      split: file_entry.splits sum.splits option.splits prod.splits)

text \<open>The result of a call depends on the processor only through the number of its images.\<close>

lemma process_image_same_result:
  "length (processed_images st) = length (processed_images st2) \<Longrightarrow>
     snd (process_image env st p) = snd (process_image env st2 p)"
  by (auto simp: process_image_def Let_def
      split: file_entry.splits sum.splits option.splits prod.splits)

text \<open>Results numbered by the successes before them have consecutive numbers.\<close>

lemma numbers_of_successes:
  "(\<forall>i<length new. \<forall>x. new ! i = Processed x \<longrightarrow>
       figure_number x = Suc (b + length (successes (take i new)))) \<Longrightarrow>
   map figure_number (successes new) = [Suc b ..< Suc b + length (successes new)]"
proof (induction new arbitrary: b)
  case Nil
  then show ?case by simp
next
  case (Cons r new)
  show ?case
  proof (cases r)
    case (Failed e)
    have "\<forall>i<length new. \<forall>x. new ! i = Processed x \<longrightarrow>
       figure_number x = Suc (b + length (successes (take i new)))"
    proof (intro allI impI)
      fix i x assume "i < length new" "new ! i = Processed x"
      with Cons.prems [rule_format, of "Suc i" x] Failed
      show "figure_number x = Suc (b + length (successes (take i new)))" by simp
    qed
    from Cons.IH [OF this] Failed show ?thesis by simp
  next
    case (Processed y)
    have "\<forall>i<length new. \<forall>x. new ! i = Processed x \<longrightarrow>
       figure_number x = Suc (Suc b + length (successes (take i new)))"
    proof (intro allI impI)
      fix i x assume "i < length new" "new ! i = Processed x"
      with Cons.prems [rule_format, of "Suc i" x] Processed
      show "figure_number x = Suc (Suc b + length (successes (take i new)))" by simp
    qed
    from Cons.IH [OF this] have
      "map figure_number (successes new) = [Suc (Suc b) ..< Suc (Suc b) + length (successes new)]" .
    moreover from Cons.prems [rule_format, of 0 y] Processed have "figure_number y = Suc b"
      by simp
    ultimately show ?thesis using Processed
      by (simp add: upt_conv_Cons del: upt_Suc)
  qed
qed

text \<open>
  The loop invariant: the results added are one per path, each is the result of
  \<open>process_image\<close> in a processor that holds the successes before it, and a success has
  the path it was made from and the number after the successes before it.
\<close>

lemma process_image_loop_results:
  "process_image_loop env st results paths = (st', results') \<Longrightarrow>
     (\<exists>new. results' = results @ new \<and> length new = length paths
        \<and> processed_images st' = processed_images st @ successes new
        \<and> (\<forall>i<length paths. \<forall>s::image_processor.
              processed_images s = processed_images st @ successes (take i new) \<longrightarrow>
              new ! i = snd (process_image env s (paths ! i)))
        \<and> (\<forall>i<length paths. \<forall>x. new ! i = Processed x \<longrightarrow>
              src_path x = paths ! i
              \<and> figure_number x =
                  Suc (length (processed_images st) + length (successes (take i new)))))"
proof (induction paths arbitrary: st results)
  case Nil
  then show ?case by simp
next
  case (Cons p ps)
  obtain st1 r where pr: "process_image env st p = (st1, r)"
    by (cases "process_image env st p")
  with Cons.prems have loop: "process_image_loop env st1 (results @ [r]) ps = (st', results')"
    by simp
  from Cons.IH [OF loop] obtain new where
    new: "results' = (results @ [r]) @ new" "length new = length ps"
      "processed_images st' = processed_images st1 @ successes new"
      "\<forall>i<length ps. \<forall>s::image_processor.
              processed_images s = processed_images st1 @ successes (take i new) \<longrightarrow>
              new ! i = snd (process_image env s (ps ! i))"
      "\<forall>i<length ps. \<forall>x. new ! i = Processed x \<longrightarrow>
              src_path x = ps ! i
              \<and> figure_number x =
                  Suc (length (processed_images st1) + length (successes (take i new)))"
    by blast
  have st1: "processed_images st1 = processed_images st @ successes [r]"
    using process_image_result [OF pr] by (cases r) simp_all
  have same: "\<forall>i<length (p # ps). \<forall>s::image_processor.
              processed_images s = processed_images st @ successes (take i (r # new)) \<longrightarrow>
              (r # new) ! i = snd (process_image env s ((p # ps) ! i))"
  proof (intro allI impI)
    fix i and s :: image_processor
    assume i: "i < length (p # ps)"
      and s: "processed_images s = processed_images st @ successes (take i (r # new))"
    show "(r # new) ! i = snd (process_image env s ((p # ps) ! i))"
    proof (cases i)
      case 0
      with s have "length (processed_images s) = length (processed_images st)" by simp
      from process_image_same_result [OF this, of env p] pr 0 show ?thesis by simp
    next
      case (Suc j)
      with i have j: "j < length ps" by simp
      from s Suc st1 have "processed_images s = processed_images st1 @ successes (take j new)"
        by (cases r) simp_all
      with new(4) j Suc show ?thesis by simp
    qed
  qed
  have nums: "\<forall>i<length (p # ps). \<forall>x. (r # new) ! i = Processed x \<longrightarrow>
              src_path x = (p # ps) ! i
              \<and> figure_number x =
                  Suc (length (processed_images st) + length (successes (take i (r # new))))"
  proof (intro allI impI)
    fix i x
    assume i: "i < length (p # ps)" and x: "(r # new) ! i = Processed x"
    show "src_path x = (p # ps) ! i
              \<and> figure_number x =
                  Suc (length (processed_images st) + length (successes (take i (r # new))))"
    proof (cases i)
      case 0
      with x have "r = Processed x" by simp
      with process_image_result [OF pr] 0 show ?thesis by simp
    next
      case (Suc j)
      with i x have j: "j < length ps" "new ! j = Processed x" by simp_all
      with new(5) have "src_path x = ps ! j"
        "figure_number x = Suc (length (processed_images st1) + length (successes (take j new)))"
        by simp_all
      with st1 Suc show ?thesis by (cases r) simp_all
    qed
  qed
  from new st1 have "results' = results @ (r # new)" "length (r # new) = length (p # ps)"
    "processed_images st' = processed_images st @ successes (r # new)"
    by (cases r; simp)+
  with same nums show ?case by blast
qed

text \<open>
  C5: a new image processor that processes a list of paths returns one result per path,
  in input order. The result at a position is the one that \<open>process_image\<close> gives for
  the path at that position in a processor that holds exactly the successes before it,
  whatever failed in between and wherever it failed: for a missing file, at the opening
  of the file, at the conversion, at the resizing or at the saving. A success has the
  path of its position and the number that follows the count of the successes before
  it, so the figure numbers of the successes are 1, 2, ... without a gap in input order,
  and a failed image neither takes nor skips a number.
\<close>

theorem figure_numbers_sequential:
  "process_image_list env init_processor image_paths = (st', results) \<Longrightarrow>
     length results = length image_paths
     \<and> (\<forall>i<length image_paths. \<forall>s::image_processor.
          processed_images s = successes (take i results) \<longrightarrow>
          results ! i = snd (process_image env s (image_paths ! i)))
     \<and> (\<forall>i<length image_paths. \<forall>x. results ! i = Processed x \<longrightarrow>
          src_path x = image_paths ! i
          \<and> figure_number x = Suc (length (successes (take i results))))
     \<and> map figure_number (successes results) = [1 ..< Suc (length (successes results))]
     \<and> processed_images st' = successes results"
proof -
  assume run: "process_image_list env init_processor image_paths = (st', results)"
  from process_image_loop_results [of env init_processor "[]" image_paths st' results] run
  have res: "length results = length image_paths"
    "processed_images st' = successes results"
    "\<forall>i<length image_paths. \<forall>s::image_processor.
          processed_images s = successes (take i results) \<longrightarrow>
          results ! i = snd (process_image env s (image_paths ! i))"
    "\<forall>i<length image_paths. \<forall>x. results ! i = Processed x \<longrightarrow>
          src_path x = image_paths ! i
          \<and> figure_number x = Suc (length (successes (take i results)))"
    by (simp_all add: process_image_list_def init_processor_def)
  from res(1,4) have "\<forall>i<length results. \<forall>x. results ! i = Processed x \<longrightarrow>
       figure_number x = Suc (0 + length (successes (take i results)))"
    by simp
  from numbers_of_successes [OF this]
  have "map figure_number (successes results) = [1 ..< Suc (length (successes results))]"
    by simp
  with res show ?thesis by simp
qed

text \<open>
  The run on the example paths: an image, a missing file, an image that cannot be saved
  (its warning stays in the processor), an image that cannot be resized, an image.
\<close>

lemma example_run:
  "process_image_list example_env init_processor example_paths =
     (\<lparr>processed_images =
         [\<lparr>src_path = U ''a.png'', original_size = (800, 600), original_mode = ''RGB'',
           resized = False, new_size = (800, 600), dpi_warning = False,
           processed_path = U ''fig_1_a.png'', figure_number = 1\<rparr>,
          \<lparr>src_path = U ''e.png'', original_size = (2000, 1000), original_mode = ''RGBA'',
           resized = True, new_size = (340, 170), dpi_warning = True,
           processed_path = U ''fig_2_e.png'', figure_number = 2\<rparr>],
       warnings = [(U ''c.png'', 72), (U ''e.png'', 72)]\<rparr>,
      [Processed \<lparr>src_path = U ''a.png'', original_size = (800, 600), original_mode = ''RGB'',
           resized = False, new_size = (800, 600), dpi_warning = False,
           processed_path = U ''fig_1_a.png'', figure_number = 1\<rparr>,
       Failed (U ''File not found: b.png''),
       Failed (U ''cannot write mode CMYK as PNG''),
       Failed (U ''height and width must be > 0''),
       Processed \<lparr>src_path = U ''e.png'', original_size = (2000, 1000), original_mode = ''RGBA'',
           resized = True, new_size = (340, 170), dpi_warning = True,
           processed_path = U ''fig_2_e.png'', figure_number = 2\<rparr>])"
  by (simp add: process_image_list_def process_image_def convert_mode_def resize_image_def
      init_processor_def example_env_def example_files_def example_paths_def U_def Let_def
      get_dpi_def MIN_DPI_def str_nat.simps digit_char_def)

text \<open>
  Three failures of three kinds between two successes: the successes have the numbers 1
  and 2, and the fifth result has the number that follows the one success before it.
\<close>

theorem figure_numbers_sequential_witness:
  "map result_number (snd (process_image_list example_env init_processor example_paths)) =
     [Some 1, None, None, None, Some 2]
   \<and> map figure_number
       (successes (snd (process_image_list example_env init_processor example_paths))) = [1, 2]
   \<and> map src_path
       (successes (snd (process_image_list example_env init_processor example_paths))) =
       [U ''a.png'', U ''e.png'']
   \<and> map figure_number
       (processed_images (fst (process_image_list example_env init_processor example_paths))) =
       [1, 2]
   \<and> warnings (fst (process_image_list example_env init_processor example_paths)) =
       [(U ''c.png'', 72), (U ''e.png'', 72)]"
  using figure_numbers_sequential [OF example_run]
  by (simp add: example_run)

section \<open>A figure whose file is missing\<close>

text \<open>
  C10: \<open>add_figure\<close> on a path that does not exist adds 1 to the figure counter,
  appends one paragraph, the centred caption whose first run is \<open>Fig. N. \<close> for the
  new counter \<open>N\<close>, and appends one entry to the log; no picture is inserted.
\<close>

theorem add_figure_missing_file:
  "\<not> exists image_path \<Longrightarrow>
     (let s' = add_figure exists s image_path cap;
          n = figure_counter s + 1;
          c = (case cap of None \<Rightarrow> U (''Description of figure '' @ str_nat n)
               | Some t \<Rightarrow> if t \<noteq> [] then t else U (''Description of figure '' @ str_nat n))
      in figure_counter s' = n
         \<and> document s' = document s @ [caption_paragraph n c]
         \<and> palignment (caption_paragraph n c) = Some CENTER
         \<and> map rcontent (runs (caption_paragraph n c)) =
             [Text (U (''Fig. '' @ str_nat n @ ''. '')), Text c]
         \<and> changes_log s' = changes_log s @ [''Figure '' @ str_nat n @ '' inserted with caption''])"
  by (cases cap)
    (simp_all add: add_figure_def Let_def add_paragraph_def log_change_def caption_paragraph_def
      text_run_def)

theorem add_figure_missing_file_witness:
  "(let s' = add_figure (\<lambda>p. False) init_applier (U ''missing.png'') (Some (U ''Chart''))
    in figure_counter s' = 1
       \<and> document s' = [caption_paragraph 1 (U ''Chart'')]
       \<and> map rcontent (runs (caption_paragraph 1 (U ''Chart''))) =
           [Text (U ''Fig. 1. ''), Text (U ''Chart'')]
       \<and> changes_log s' = [''Figure 1 inserted with caption''])"
  using add_figure_missing_file [of "\<lambda>p. False" "U ''missing.png''" init_applier "Some (U ''Chart'')"]
  by (simp add: Let_def init_applier_def U_def str_nat.simps digit_char_def)

section \<open>Evaluating patterns on given texts\<close>

text \<open>The definitions that the simplifier unfolds to run a pattern on a given text.\<close>

lemmas char_eval = is_space_def is_digit_def is_upper_AZ_def ci_eq_def newline_def
lemmas pattern_defs = introduction_pattern_def related_work_pattern_def methodology_pattern_def
  results_pattern_def discussion_pattern_def conclusion_pattern_def references_pattern_def
  acknowledgments_pattern_def numbered_pattern_def abstract_pattern_def keywords_stop_pattern_def
  keywords_prefix_def reference_number_pattern_def heading_number_pattern_def num_prefix_def
  ci_def lit_def
lemmas regex_eval = re_match_def re_sub_prefix_def U_def pattern_defs char_eval

section \<open>The word count of the abstract\<close>

text \<open>\<open>split\<close> ignores the whitespace that \<open>strip\<close> removes.\<close>

lemma split_ws_aux_all_space:
  "\<forall>c \<in> set cs. is_space c \<Longrightarrow> split_ws_aux w cs = (if w = [] then [] else [w])"
  by (induction cs arbitrary: w) auto

lemma split_ws_aux_dropWhile:
  "split_ws_aux [] (dropWhile is_space s) = split_ws_aux [] s"
  by (induction s) auto

lemma split_ws_aux_drop_trailing:
  "split_ws_aux w (rev (dropWhile is_space (rev s))) = split_ws_aux w s"
proof (induction s arbitrary: w)
  case Nil
  then show ?case by simp
next
  case (Cons c cs)
  show ?case
  proof (cases "\<forall>x \<in> set cs. is_space x")
    case True
    then show ?thesis
      by (simp add: dropWhile_append split_ws_aux_all_space)
  next
    case False
    then have "rev (dropWhile is_space (rev (c # cs))) = c # rev (dropWhile is_space (rev cs))"
      by (auto simp: dropWhile_append)
    then show ?thesis
      using Cons.IH by simp
  qed
qed

lemma split_ws_strip: "split_ws (strip s) = split_ws s"
  by (simp add: split_ws_def strip_def split_ws_aux_drop_trailing split_ws_aux_dropWhile)

lemma abstract_loop_not_started:
  "\<forall>p \<in> set ps. \<not> re_match abstract_pattern p \<Longrightarrow> abstract_loop t False ps = t"
  by (induction ps) auto

text \<open>
  C7: the \<open>word_count\<close> of the abstract that \<open>extract_abstract\<close> returns is the
  number of whitespace-delimited tokens of its text, it is 0 when no paragraph matches the
  abstract pattern, and \<open>is_valid\<close> holds exactly when the count is between 150 and 250.
\<close>

theorem extract_abstract_word_count:
  "word_count (extract_abstract ps) = length (split_ws (atext (extract_abstract ps)))
   \<and> (is_valid (extract_abstract ps) \<longleftrightarrow>
        150 \<le> word_count (extract_abstract ps) \<and> word_count (extract_abstract ps) \<le> 250)
   \<and> ((\<forall>p \<in> set ps. \<not> re_match abstract_pattern p) \<longrightarrow> word_count (extract_abstract ps) = 0)"
proof -
  have "split_ws (strip []) = []"
    by (simp add: split_ws_def strip_def)
  then show ?thesis
    by (auto simp: extract_abstract_def Let_def split_ws_strip abstract_loop_not_started)
qed

text \<open>
  On the scenario of the specification the abstract is \<open>This work presents...\<close>:
  three words, not valid.
\<close>

theorem extract_abstract_word_count_witness:
  "word_count (extract_abstract example_paragraphs) = 3
   \<and> length (split_ws (atext (extract_abstract example_paragraphs))) = 3
   \<and> \<not> is_valid (extract_abstract example_paragraphs)"
proof -
  have "abstract_loop [] False example_paragraphs = U ''This work presents...''"
    by (simp add: example_paragraphs_def is_section_heading_def SECTION_PATTERNS_def regex_eval)
  then have "word_count (extract_abstract example_paragraphs) = 3"
    by (simp add: extract_abstract_def split_ws_def U_def is_space_def)
  then show ?thesis
    using extract_abstract_word_count [of example_paragraphs] by simp
qed

section \<open>Keywords: joining and splitting\<close>

text \<open>A text that \<open>strip\<close> leaves unchanged starts and ends with no whitespace.\<close>

lemma strip_fixed_ends:
  assumes "strip t = t" "t \<noteq> []"
  shows "\<not> is_space (hd t)" "\<not> is_space (last t)"
proof -
  have len: "length (dropWhile is_space (rev (dropWhile is_space t))) = length t"
    using assms(1) by (metis length_rev strip_def)
  have l1: "length (dropWhile is_space (rev (dropWhile is_space t))) \<le> length (dropWhile is_space t)"
    by (metis length_dropWhile_le length_rev)
  have l2: "length (dropWhile is_space t) \<le> length t"
    by (rule length_dropWhile_le)
  from len l1 l2 have "length (dropWhile is_space t) = length t" by simp
  moreover have "length (takeWhile is_space t) + length (dropWhile is_space t) = length t"
    by (metis length_append takeWhile_dropWhile_id)
  ultimately have "takeWhile is_space t = []" by simp
  then have d1: "dropWhile is_space t = t"
    by (metis append_Nil takeWhile_dropWhile_id)
  with assms(2) show "\<not> is_space (hd t)"
    by (metis hd_dropWhile)
  from d1 assms(1) have "dropWhile is_space (rev t) = rev t"
    by (metis rev_rev_ident strip_def)
  with assms(2) show "\<not> is_space (last t)"
    by (metis hd_dropWhile hd_rev rev_is_Nil_conv)
qed

lemma strip_padded:
  assumes "strip t = t" "t \<noteq> []" "\<forall>c \<in> set pre. is_space c" "\<forall>c \<in> set post. is_space c"
  shows "strip (pre @ t @ post) = t"
proof -
  from strip_fixed_ends [OF assms(1,2)] have ends: "\<not> is_space (hd t)" "\<not> is_space (last t)" .
  from assms(2) ends(1) have "dropWhile is_space t = t"
    by (cases t) simp_all
  with assms(2,3) ends(1) have front: "dropWhile is_space (pre @ t @ post) = t @ post"
    by (cases t) (simp_all add: dropWhile_append)
  from assms(2) ends(2) have "dropWhile is_space (rev t) = rev t"
    by (cases "rev t") (auto simp: hd_rev [symmetric])
  with assms(4) have "dropWhile is_space (rev (t @ post)) = rev t"
    by (simp add: dropWhile_append)
  with front show ?thesis
    by (simp add: strip_def)
qed

lemma split_on_no_delimiter:
  "\<forall>c \<in> set t. \<not> d c \<Longrightarrow> split_on d t = [t]"
  by (induction t) auto

lemma split_on_at_delimiter:
  "\<forall>c \<in> set t. \<not> d c \<Longrightarrow> d x \<Longrightarrow> split_on d (t @ x # rest) = t # split_on d rest"
  by (induction t) auto

lemma space_is_space: "is_space 32"
  by (simp add: is_space_def)

lemma space_no_delimiter: "\<not> is_keyword_delimiter 32"
  by (simp add: is_keyword_delimiter_def middle_dot_def bullet_def)

lemma middle_dot_delimiter: "is_keyword_delimiter middle_dot"
  by (simp add: is_keyword_delimiter_def)

lemma U_space: "U '' '' = [32]"
  by (simp add: U_def)


lemma join_keywords_Cons2:
  "join_keywords (x # y # ys) = (x @ [32]) @ middle_dot # ([32] @ join_keywords (y # ys))"
  by (simp add: join_keywords_def U_space)

lemma split_keywords_padded_join:
  assumes "\<forall>t \<in> set ts. t \<noteq> [] \<and> strip t = t \<and> (\<forall>c \<in> set t. \<not> is_keyword_delimiter c)"
    and "ts \<noteq> []"
    and "pre = [] \<or> pre = [32]"
  shows "split_keywords (pre @ join_keywords ts) = ts"
  using assms
proof (induction ts arbitrary: pre)
  case Nil
  then show ?case by simp
next
  case (Cons x xs)
  from Cons.prems have x: "x \<noteq> []" "strip x = x" "\<forall>c \<in> set x. \<not> is_keyword_delimiter c"
    by simp_all
  from Cons.prems(3) have pre_sp: "\<forall>c \<in> set pre. is_space c"
    using space_is_space by auto
  from Cons.prems(3) have pre_nd: "\<forall>c \<in> set pre. \<not> is_keyword_delimiter c"
    using space_no_delimiter by auto
  show ?case
  proof (cases xs)
    case Nil
    from x pre_nd have nd: "\<forall>c \<in> set (pre @ x). \<not> is_keyword_delimiter c"
      by auto
    have "strip (pre @ x @ []) = x"
      using x(1,2) pre_sp by (intro strip_padded) simp_all
    with Nil x(1) show ?thesis
      by (simp add: split_keywords_def join_keywords_def split_on_no_delimiter [OF nd])
  next
    case (Cons y ys)
    from x pre_nd have nd: "\<forall>c \<in> set (pre @ x @ [32]). \<not> is_keyword_delimiter c"
      using space_no_delimiter by auto
    have st: "strip (pre @ x @ [32]) = x"
      using x(1,2) pre_sp space_is_space by (intro strip_padded) simp_all
    have rest: "split_keywords ([32] @ join_keywords xs) = xs"
      using Cons.prems Cons by (intro Cons.IH) simp_all
    have "pre @ join_keywords (x # xs) =
        (pre @ x @ [32]) @ middle_dot # ([32] @ join_keywords xs)"
      by (simp add: Cons join_keywords_Cons2)
    then have "split_on is_keyword_delimiter (pre @ join_keywords (x # xs)) =
        (pre @ x @ [32]) # split_on is_keyword_delimiter ([32] @ join_keywords xs)"
      using split_on_at_delimiter [OF nd middle_dot_delimiter] by simp
    with st rest x(1) show ?thesis
      by (simp add: split_keywords_def)
  qed
qed

text \<open>
  C8: a list of tokens that are not empty, are trimmed and hold none of the four
  delimiters is what the split of \<open>extract_keywords\<close> gives back from the text that
  \<open>add_keywords\<close> makes by joining the tokens with a middle dot between two spaces.
\<close>

theorem keywords_round_trip:
  "\<forall>t \<in> set tokens. t \<noteq> [] \<and> strip t = t \<and> (\<forall>c \<in> set t. \<not> is_keyword_delimiter c) \<Longrightarrow>
     split_keywords (join_keywords tokens) = tokens"
proof (cases "tokens = []")
  case True
  then show ?thesis
    by (simp add: split_keywords_def join_keywords_def strip_def)
next
  case False
  assume "\<forall>t \<in> set tokens. t \<noteq> [] \<and> strip t = t \<and> (\<forall>c \<in> set t. \<not> is_keyword_delimiter c)"
  with False show ?thesis
    using split_keywords_padded_join [of tokens "[]"] by simp
qed

theorem keywords_round_trip_witness:
  "split_keywords (join_keywords [U ''ml'', U ''nlp'']) = [U ''ml'', U ''nlp'']"
proof -
  have "\<forall>t \<in> set [U ''ml'', U ''nlp''].
          t \<noteq> [] \<and> strip t = t \<and> (\<forall>c \<in> set t. \<not> is_keyword_delimiter c)"
    by (simp add: U_def strip_def is_space_def is_keyword_delimiter_def middle_dot_def bullet_def)
  then show ?thesis
    by (rule keywords_round_trip)
qed

section \<open>The references heading\<close>

text \<open>
  C6, as the specification states it, has every pattern of the table accept a leading
  number, so that \<open>7. References\<close> would open the references. The pattern for the
  references has no group for a number: the paragraph is not matched by it, is classified
  as a numbered section, and no reference is extracted after it.
\<close>

theorem numbered_references_heading_counterexample:
  "\<not> re_match references_pattern (U ''7. References'')
   \<and> get_section_type (U ''7. References'') = Some ''numbered_section''
   \<and> extract_references [U ''7. References'', U ''[1] Smith 2020''] = []"
  by (simp add: get_section_type_def SECTION_PATTERNS_def extract_references_def regex_eval)

lemma digit_not_space: "is_digit c \<Longrightarrow> \<not> is_space c"
  by (auto simp: is_digit_def is_space_def)

lemma digit_not_letter: "is_digit c \<Longrightarrow> 97 \<le> l \<Longrightarrow> l \<le> 122 \<Longrightarrow> \<not> ci_eq l c"
  by (auto simp: is_digit_def ci_eq_def)

lemma space_not_letter: "is_space c \<Longrightarrow> 97 \<le> l \<Longrightarrow> l \<le> 122 \<Longrightarrow> \<not> ci_eq l c"
  by (auto simp: is_space_def ci_eq_def)

text \<open>Leading whitespace before a pattern that accepts no text starting with whitespace.\<close>

lemma rmatch_skip_spaces:
  assumes "\<And>c cs. is_space c \<Longrightarrow> rmatch X (c # cs) = []"
  shows "rmatch (Seq (Star Space) X) s = rmatch X (dropWhile is_space s)"
  using assms by (induction s) simp_all

lemma rmatch_spaces_eol: "rmatch (Seq (Star Space) Eol) u \<noteq> [] \<longleftrightarrow> list_all is_space u"
proof (induction u)
  case Nil
  then show ?case by simp
next
  case (Cons c cs)
  have "is_space newline" by (simp add: is_space_def newline_def)
  with Cons show ?case by auto
qed

lemma dropWhile_spaces:
  "list_all is_space a \<Longrightarrow> \<not> is_space c \<Longrightarrow> dropWhile is_space (a @ c # cs) = c # cs"
  by (induction a) simp_all

text \<open>
  A pattern that starts with \<open>^\s*(n\.?\s*)?\<close> for a digit \<open>n\<close> and goes on with a
  pattern \<open>R\<close> that accepts only texts that start with neither whitespace nor a digit.
\<close>

lemma numbered_form:
  fixes R :: regex and n :: nat
  defines "P \<equiv> Seq (Star Space)
                 (Seq (Opt (Seq (Atom (Lit n)) (Seq (Opt (Atom (Lit 46))) (Star Space)))) R)"
  assumes R: "\<And>u. rmatch R u \<noteq> [] \<Longrightarrow> \<exists>c cs. u = c # cs \<and> \<not> is_space c \<and> \<not> is_digit c"
    and n: "is_digit n"
  shows "re_match P s \<longleftrightarrow>
           (\<exists>a num b t. s = a @ num @ b @ t \<and> list_all is_space a \<and> num \<in> set [[], [n], [n, 46]]
              \<and> list_all is_space b
              \<and> (\<exists>c cs. t = c # cs \<and> \<not> is_space c \<and> \<not> is_digit c) \<and> re_match P t)"
proof -
  let ?N = "Opt (Seq (Atom (Lit n)) (Seq (Opt (Atom (Lit 46))) (Star Space)))"
  have Rsp: "rmatch R (c # cs) = []" if "is_space c" for c cs
    using R [of "c # cs"] that by auto
  have Rdig: "rmatch R (c # cs) = []" if "is_digit c" for c cs
    using R [of "c # cs"] that by auto
  have Rnil: "rmatch R [] = []"
    using R [of "[]"] by auto
  have nsp: "\<not> is_space n" using n by (rule digit_not_space)
  have n46: "n \<noteq> 46" "\<not> is_space 46" "\<not> is_digit 46"
    using n by (auto simp: is_digit_def is_space_def)
  have Rstar: "rmatch (Seq (Star Space) R) w = rmatch R (dropWhile is_space w)" for w
    by (rule rmatch_skip_spaces) (rule Rsp)
  have Rstar': "concat (map (rmatch R) (star_rem Space w)) = rmatch R (dropWhile is_space w)" for w
    using Rstar [of w] by simp
  have NRsp: "rmatch (Seq ?N R) (c # cs) = []" if "is_space c" for c cs
    using that nsp Rsp by auto
  have P: "rmatch P w = rmatch (Seq ?N R) (dropWhile is_space w)" for w
    unfolding P_def by (rule rmatch_skip_spaces) (rule NRsp)
  have other: "rmatch (Seq ?N R) (c # cs) = rmatch R (c # cs)" if "c \<noteq> n" for c cs
    using that by simp
  have own: "rmatch (Seq ?N R) (n # v) \<noteq> [] \<longleftrightarrow>
      (\<exists>v'. v = 46 # v' \<and> rmatch R (dropWhile is_space v') \<noteq> [])
      \<or> rmatch R (dropWhile is_space v) \<noteq> []" for v
  proof (cases v)
    case Nil
    with Rdig [OF n] show ?thesis by (simp add: Rnil)
  next
    case (Cons c cs)
    show ?thesis
    proof (cases "c = 46")
      case True
      with Cons Rdig [OF n] show ?thesis
        by (auto simp: Rstar' simp del: star_rem.simps dropWhile.simps)
    next
      case False
      with Cons Rdig [OF n] show ?thesis
        by (auto simp: Rstar' simp del: star_rem.simps dropWhile.simps)
    qed
  qed
  have plain: "re_match P (c # cs) \<longleftrightarrow> rmatch R (c # cs) \<noteq> []"
    if "\<not> is_space c" "\<not> is_digit c" for c cs
    using that n by (auto simp: re_match_def P other)
  show ?thesis
  proof
    assume "re_match P s"
    then have m: "rmatch (Seq ?N R) (dropWhile is_space s) \<noteq> []"
      by (simp add: re_match_def P)
    define a where "a = takeWhile is_space s"
    define s0 where "s0 = dropWhile is_space s"
    have s: "s = a @ s0" and a: "list_all is_space a"
      by (simp_all add: a_def s0_def list_all_iff) (meson set_takeWhileD)
    from m have m0: "rmatch (Seq ?N R) s0 \<noteq> []" by (simp add: s0_def)
    show "\<exists>a num b t. s = a @ num @ b @ t \<and> list_all is_space a \<and> num \<in> set [[], [n], [n, 46]]
              \<and> list_all is_space b
              \<and> (\<exists>c cs. t = c # cs \<and> \<not> is_space c \<and> \<not> is_digit c) \<and> re_match P t"
    proof (cases s0)
      case Nil
      with m0 Rnil show ?thesis by simp
    next
      case (Cons c cs)
      show ?thesis
      proof (cases "c = n")
        case False
        with m0 Cons have "rmatch R s0 \<noteq> []" by (simp add: other)
        from R [OF this] obtain c' cs' where t: "s0 = c' # cs'" "\<not> is_space c'" "\<not> is_digit c'"
          by blast
        with \<open>rmatch R s0 \<noteq> []\<close> have "re_match P s0" by (simp add: plain)
        with s a t show ?thesis
          by (intro exI [of _ a] exI [of _ "[]"] exI [of _ s0]) simp
      next
        case True
        with m0 Cons have "rmatch (Seq ?N R) (n # cs) \<noteq> []"
          by (simp del: rmatch.simps)
        then have "(\<exists>v'. cs = 46 # v' \<and> rmatch R (dropWhile is_space v') \<noteq> [])
            \<or> rmatch R (dropWhile is_space cs) \<noteq> []"
          using own [of cs] by blast
        then show ?thesis
        proof
          assume "\<exists>v'. cs = 46 # v' \<and> rmatch R (dropWhile is_space v') \<noteq> []"
          then obtain v' where v': "cs = 46 # v'" "rmatch R (dropWhile is_space v') \<noteq> []"
            by blast
          from R [OF v'(2)] obtain c' cs' where
            t: "dropWhile is_space v' = c' # cs'" "\<not> is_space c'" "\<not> is_digit c'"
            by blast
          with v'(2) have "re_match P (dropWhile is_space v')" by (simp add: plain)
          moreover have "s = a @ [n, 46] @ takeWhile is_space v' @ dropWhile is_space v'"
            using s Cons True v' by simp
          moreover have "list_all is_space (takeWhile is_space v')"
            by (simp add: list_all_iff) (meson set_takeWhileD)
          ultimately show ?thesis using a t
            by (intro exI [of _ a] exI [of _ "[n, 46]"] exI [of _ "takeWhile is_space v'"]
                exI [of _ "dropWhile is_space v'"]) simp
        next
          assume r: "rmatch R (dropWhile is_space cs) \<noteq> []"
          from R [OF r] obtain c' cs' where
            t: "dropWhile is_space cs = c' # cs'" "\<not> is_space c'" "\<not> is_digit c'"
            by blast
          with r have "re_match P (dropWhile is_space cs)" by (simp add: plain)
          moreover have "s = a @ [n] @ takeWhile is_space cs @ dropWhile is_space cs"
            using s Cons True by simp
          moreover have "list_all is_space (takeWhile is_space cs)"
            by (simp add: list_all_iff) (meson set_takeWhileD)
          ultimately show ?thesis using a t
            by (intro exI [of _ a] exI [of _ "[n]"] exI [of _ "takeWhile is_space cs"]
                exI [of _ "dropWhile is_space cs"]) simp
        qed
      qed
    qed
  next
    assume "\<exists>a num b t. s = a @ num @ b @ t \<and> list_all is_space a \<and> num \<in> set [[], [n], [n, 46]]
              \<and> list_all is_space b
              \<and> (\<exists>c cs. t = c # cs \<and> \<not> is_space c \<and> \<not> is_digit c) \<and> re_match P t"
    then obtain a num b c cs where
      d: "s = a @ num @ b @ c # cs" "list_all is_space a" "num \<in> set [[], [n], [n, 46]]"
        "list_all is_space b" "\<not> is_space c" "\<not> is_digit c" "re_match P (c # cs)"
      by blast
    from d have Rt: "rmatch R (c # cs) \<noteq> []" by (simp add: plain)
    have b: "dropWhile is_space (b @ c # cs) = c # cs"
      using d by (simp add: dropWhile_spaces)
    from d(3) consider "num = []" | "num = [n]" | "num = [n, 46]" by auto
    then show "re_match P s"
    proof cases
      case 1
      with d have "s = (a @ b) @ c # cs" "list_all is_space (a @ b)" by simp_all
      then have "dropWhile is_space s = c # cs"
        using d(5) dropWhile_spaces by metis
      with Rt d n show ?thesis by (auto simp: re_match_def P other)
    next
      case 2
      with d have "dropWhile is_space s = n # b @ c # cs"
        using dropWhile_spaces [of a n "b @ c # cs"] nsp by simp
      with Rt b show ?thesis by (simp add: re_match_def P own del: rmatch.simps)
    next
      case 3
      with d have "dropWhile is_space s = n # 46 # b @ c # cs"
        using dropWhile_spaces [of a n "46 # b @ c # cs"] nsp by simp
      with Rt b show ?thesis by (simp add: re_match_def P own del: rmatch.simps)
    qed
  qed
qed

text \<open>
  What follows the optional number in the six numbered patterns, and what follows the
  leading whitespace in the two others, accepts no empty text and no text that starts
  with whitespace or a digit.
\<close>

lemma heading_words_start:
  assumes "u = [] \<or> (\<exists>c cs. u = c # cs \<and> (is_space c \<or> is_digit c))"
  shows "rmatch (seqs [ci ''introduction'', Star Space, Eol]) u = []"
    and "rmatch (seqs [alts [seqs [ci ''related'', Star Space, ci ''work''],
             seqs [ci ''literature'', Star Space, ci ''review''],
             ci ''background''], Star Space, Eol]) u = []"
    and "rmatch (seqs [alts [ci ''methodology'',
             seqs [ci ''proposed'', Star Space,
                   alts [ci ''method'', ci ''approach'', ci ''system'']],
             seqs [ci ''method'', Opt (ci ''s'')]], Star Space, Eol]) u = []"
    and "rmatch (seqs [alts [seqs [ci ''result'', Opt (ci ''s'')],
             seqs [ci ''experiment'', Opt (ci ''s'')],
             ci ''evaluation'',
             seqs [ci ''experimental'', Star Space, ci ''results'']], Star Space, Eol]) u = []"
    and "rmatch (seqs [ci ''discussion'', Star Space, Eol]) u = []"
    and "rmatch (seqs [alts [seqs [ci ''conclusion'', Opt (ci ''s'')],
             ci ''summary'',
             seqs [ci ''future'', Star Space, ci ''work'']], Star Space, Eol]) u = []"
    and "rmatch (seqs [ci ''reference'', Opt (ci ''s''), Star Space, Eol]) u = []"
    and "rmatch (seqs [ci ''acknowledg'', Opt (ci ''e''), ci ''ment'', Opt (ci ''s''),
           Star Space, Eol]) u = []"
  using assms by (elim disjE exE conjE; simp add: ci_def digit_not_letter space_not_letter)+

lemma starts_with_letter:
  "(u = [] \<or> (\<exists>c cs. u = c # cs \<and> (is_space c \<or> is_digit c)) \<Longrightarrow> rmatch R u = []) \<Longrightarrow>
   rmatch R u \<noteq> [] \<Longrightarrow> \<exists>c cs. u = c # cs \<and> \<not> is_space c \<and> \<not> is_digit c"
  by (cases u) auto

lemma is_digit_1_6:
  "is_digit 49" "is_digit 50" "is_digit 51" "is_digit 52" "is_digit 53" "is_digit 54"
  by (simp_all add: is_digit_def)

text \<open>The six numbered patterns have the form of \<open>numbered_form\<close>.\<close>

lemma introduction_numbered:
  "re_match introduction_pattern s = optionally_numbered 49 (re_match introduction_pattern) s"
  using numbered_form [of "seqs [ci ''introduction'', Star Space, Eol]" 49 s,
      OF starts_with_letter [OF heading_words_start(1)] is_digit_1_6(1)]
  by (simp add: introduction_pattern_def num_prefix_def lit_def optionally_numbered_def)

lemma related_work_numbered:
  "re_match related_work_pattern s = optionally_numbered 50 (re_match related_work_pattern) s"
  using numbered_form [of "seqs [alts [seqs [ci ''related'', Star Space, ci ''work''],
             seqs [ci ''literature'', Star Space, ci ''review''],
             ci ''background''], Star Space, Eol]" 50 s,
      OF starts_with_letter [OF heading_words_start(2)] is_digit_1_6(2)]
  by (simp add: related_work_pattern_def num_prefix_def lit_def optionally_numbered_def)

lemma methodology_numbered:
  "re_match methodology_pattern s = optionally_numbered 51 (re_match methodology_pattern) s"
  using numbered_form [of "seqs [alts [ci ''methodology'',
             seqs [ci ''proposed'', Star Space,
                   alts [ci ''method'', ci ''approach'', ci ''system'']],
             seqs [ci ''method'', Opt (ci ''s'')]], Star Space, Eol]" 51 s,
      OF starts_with_letter [OF heading_words_start(3)] is_digit_1_6(3)]
  by (simp add: methodology_pattern_def num_prefix_def lit_def optionally_numbered_def)

lemma results_numbered:
  "re_match results_pattern s = optionally_numbered 52 (re_match results_pattern) s"
  using numbered_form [of "seqs [alts [seqs [ci ''result'', Opt (ci ''s'')],
             seqs [ci ''experiment'', Opt (ci ''s'')],
             ci ''evaluation'',
             seqs [ci ''experimental'', Star Space, ci ''results'']], Star Space, Eol]" 52 s,
      OF starts_with_letter [OF heading_words_start(4)] is_digit_1_6(4)]
  by (simp add: results_pattern_def num_prefix_def lit_def optionally_numbered_def)

lemma discussion_numbered:
  "re_match discussion_pattern s = optionally_numbered 53 (re_match discussion_pattern) s"
  using numbered_form [of "seqs [ci ''discussion'', Star Space, Eol]" 53 s,
      OF starts_with_letter [OF heading_words_start(5)] is_digit_1_6(5)]
  by (simp add: discussion_pattern_def num_prefix_def lit_def optionally_numbered_def)

lemma conclusion_numbered:
  "re_match conclusion_pattern s = optionally_numbered 54 (re_match conclusion_pattern) s"
  using numbered_form [of "seqs [alts [seqs [ci ''conclusion'', Opt (ci ''s'')],
             ci ''summary'',
             seqs [ci ''future'', Star Space, ci ''work'']], Star Space, Eol]" 54 s,
      OF starts_with_letter [OF heading_words_start(6)] is_digit_1_6(6)]
  by (simp add: conclusion_pattern_def num_prefix_def lit_def optionally_numbered_def)

text \<open>
  The two patterns without a number, on a text whose first character after the leading
  whitespace is a digit.
\<close>

lemma rmatch_seqs_skip_spaces:
  assumes "\<And>c cs. is_space c \<Longrightarrow> rmatch (seqs (r # rs)) (c # cs) = []"
  shows "rmatch (seqs (Star Space # r # rs)) s = rmatch (seqs (r # rs)) (dropWhile is_space s)"
  using rmatch_skip_spaces [of "seqs (r # rs)" s] assms by simp

lemma unnumbered_patterns_no_digit:
  assumes "list_all is_space a" "is_digit c"
  shows "\<not> re_match references_pattern (a @ c # cs)"
    and "\<not> re_match acknowledgments_pattern (a @ c # cs)"
proof -
  have c: "\<not> is_space c" using assms(2) by (rule digit_not_space)
  have "rmatch references_pattern (a @ c # cs) =
      rmatch (seqs [ci ''reference'', Opt (ci ''s''), Star Space, Eol])
        (dropWhile is_space (a @ c # cs))"
    unfolding references_pattern_def
    by (rule rmatch_seqs_skip_spaces) (rule heading_words_start(7), blast)
  also have "\<dots> = rmatch (seqs [ci ''reference'', Opt (ci ''s''), Star Space, Eol]) (c # cs)"
    by (simp only: dropWhile_spaces [OF assms(1) c])
  also have "\<dots> = []"
    by (rule heading_words_start(7)) (use assms(2) in blast)
  finally show "\<not> re_match references_pattern (a @ c # cs)"
    by (simp add: re_match_def)
  have "rmatch acknowledgments_pattern (a @ c # cs) =
      rmatch (seqs [ci ''acknowledg'', Opt (ci ''e''), ci ''ment'', Opt (ci ''s''),
           Star Space, Eol])
        (dropWhile is_space (a @ c # cs))"
    unfolding acknowledgments_pattern_def
    by (rule rmatch_seqs_skip_spaces) (rule heading_words_start(8), blast)
  also have "\<dots> = rmatch (seqs [ci ''acknowledg'', Opt (ci ''e''), ci ''ment'', Opt (ci ''s''),
           Star Space, Eol]) (c # cs)"
    by (simp only: dropWhile_spaces [OF assms(1) c])
  also have "\<dots> = []"
    by (rule heading_words_start(8)) (use assms(2) in blast)
  finally show "\<not> re_match acknowledgments_pattern (a @ c # cs)"
    by (simp add: re_match_def)
qed

lemma rmatch_seqs_Cons:
  "rmatch (seqs (r # rs)) s = concat (map (rmatch (seqs rs)) (rmatch r s))"
proof (cases rs)
  case Nil
  have "rmatch Eps = (\<lambda>t. [t])" by (rule ext) simp
  with Nil show ?thesis by simp
next
  case (Cons a list)
  then show ?thesis by simp
qed

text \<open>A word of a case-insensitive pattern takes the letters of the word from the text.\<close>

lemma rmatch_ci:
  "rmatch (ci w) s =
     (if list_all2 ci_eq (U w) (take (length w) s) then [drop (length w) s] else [])"
proof (induction w arbitrary: s)
  case Nil
  then show ?case by (simp add: ci_def U_def)
next
  case (Cons c w)
  have "rmatch (ci (c # w)) s =
      concat (map (rmatch (ci w)) (rmatch (Atom (CI (of_char c))) s))"
    unfolding ci_def list.map by (rule rmatch_seqs_Cons)
  with Cons show ?case
    by (cases s) (simp_all add: U_def)
qed

lemma letter_not_space: "ci_eq l c \<Longrightarrow> 97 \<le> l \<Longrightarrow> l \<le> 122 \<Longrightarrow> \<not> is_space c"
  using space_not_letter by blast

lemma takeWhile_spaces: "list_all is_space (takeWhile is_space s)"
  by (simp add: list_all_iff) (meson set_takeWhileD)

text \<open>
  What the references pattern accepts: whitespace, the word \<open>reference\<close> or
  \<open>references\<close> in any letter case, whitespace.
\<close>

lemma references_pattern_accepts:
  "re_match references_pattern s \<longleftrightarrow>
     (\<exists>a w b. s = a @ w @ b \<and> list_all is_space a \<and> list_all is_space b
        \<and> (list_all2 ci_eq (U ''reference'') w \<or> list_all2 ci_eq (U ''references'') w))"
proof -
  let ?X = "seqs [ci ''reference'', Opt (ci ''s''), Star Space, Eol]"
  have skip: "rmatch references_pattern v = rmatch ?X (dropWhile is_space v)" for v
    unfolding references_pattern_def
    by (rule rmatch_seqs_skip_spaces) (rule heading_words_start(7), blast)
  have tail: "rmatch (seqs [Opt (ci ''s''), Star Space, Eol]) u \<noteq> [] \<longleftrightarrow>
      (list_all2 ci_eq (U ''s'') (take 1 u) \<and> list_all is_space (drop 1 u))
      \<or> list_all is_space u" for u
    using rmatch_spaces_eol [of u] rmatch_spaces_eol [of "drop 1 u"]
    by (simp add: rmatch_ci)
  have X: "rmatch ?X v \<noteq> [] \<longleftrightarrow>
      list_all2 ci_eq (U ''reference'') (take 9 v)
      \<and> ((list_all2 ci_eq (U ''s'') (take 1 (drop 9 v)) \<and> list_all is_space (drop 1 (drop 9 v)))
         \<or> list_all is_space (drop 9 v))" for v
  proof -
    have "rmatch ?X v = concat (map (rmatch (seqs [Opt (ci ''s''), Star Space, Eol]))
        (rmatch (ci ''reference'') v))"
      by (rule rmatch_seqs_Cons)
    moreover have "length ''reference'' = 9" by simp
    then have "rmatch (ci ''reference'') v =
        (if list_all2 ci_eq (U ''reference'') (take 9 v) then [drop 9 v] else [])"
      by (simp only: rmatch_ci)
    ultimately show ?thesis
      using tail [of "drop 9 v"] by (simp del: rmatch.simps seqs.simps)
  qed
  show ?thesis
  proof
    assume "re_match references_pattern s"
    then have m: "rmatch ?X (dropWhile is_space s) \<noteq> []"
      unfolding re_match_def skip .
    define s0 where "s0 = dropWhile is_space s"
    have s: "s = takeWhile is_space s @ s0" by (simp add: s0_def)
    from m have w9: "list_all2 ci_eq (U ''reference'') (take 9 s0)"
      and rest: "(list_all2 ci_eq (U ''s'') (take 1 (drop 9 s0))
                   \<and> list_all is_space (drop 1 (drop 9 s0)))
                 \<or> list_all is_space (drop 9 s0)"
      unfolding s0_def X by simp_all
    from rest show "\<exists>a w b. s = a @ w @ b \<and> list_all is_space a \<and> list_all is_space b
        \<and> (list_all2 ci_eq (U ''reference'') w \<or> list_all2 ci_eq (U ''references'') w)"
    proof
      assume r: "list_all2 ci_eq (U ''s'') (take 1 (drop 9 s0))
                   \<and> list_all is_space (drop 1 (drop 9 s0))"
      have "take 10 s0 = take 9 s0 @ take 1 (drop 9 s0)"
        using take_add [of 9 1 s0] by simp
      moreover have "U ''references'' = U ''reference'' @ U ''s''"
        by (simp add: U_def)
      ultimately have "list_all2 ci_eq (U ''references'') (take 10 s0)"
        using w9 r by (simp add: list_all2_appendI)
      moreover have "s = takeWhile is_space s @ take 10 s0 @ drop 10 s0"
        using s by simp
      moreover have "list_all is_space (drop 10 s0)"
        using r by simp
      ultimately show ?thesis
        using takeWhile_spaces [of s] by blast
    next
      assume r: "list_all is_space (drop 9 s0)"
      have "s = takeWhile is_space s @ take 9 s0 @ drop 9 s0"
        using s by simp
      with w9 r show ?thesis
        using takeWhile_spaces [of s] by blast
    qed
  next
    assume "\<exists>a w b. s = a @ w @ b \<and> list_all is_space a \<and> list_all is_space b
        \<and> (list_all2 ci_eq (U ''reference'') w \<or> list_all2 ci_eq (U ''references'') w)"
    then obtain a w b where
      d: "s = a @ w @ b" "list_all is_space a" "list_all is_space b"
        "list_all2 ci_eq (U ''reference'') w \<or> list_all2 ci_eq (U ''references'') w"
      by blast
    from d(4) obtain x xs where w: "w = x # xs" "ci_eq 114 x"
      by (auto simp: U_def list_all2_Cons1)
    then have "\<not> is_space x" by (simp add: letter_not_space)
    with d w have s0: "dropWhile is_space s = w @ b"
      using dropWhile_spaces [of a x "xs @ b"] by simp
    from d(4) have "rmatch ?X (w @ b) \<noteq> []"
    proof
      assume r: "list_all2 ci_eq (U ''reference'') w"
      then have "length w = 9" by (auto simp: U_def dest: list_all2_lengthD)
      with r d(3) show ?thesis unfolding X by simp
    next
      assume r: "list_all2 ci_eq (U ''references'') w"
      then have l: "length w = 10" by (auto simp: U_def dest: list_all2_lengthD)
      from r have "list_all2 ci_eq (take 9 (U ''references'')) (take 9 w)"
        by (rule list_all2_takeI)
      then have a9: "list_all2 ci_eq (U ''reference'') (take 9 w)"
        by (simp add: U_def)
      from r have "list_all2 ci_eq (drop 9 (U ''references'')) (drop 9 w)"
        by (rule list_all2_dropI)
      then have a1: "list_all2 ci_eq (U ''s'') (drop 9 w)"
        by (simp add: U_def)
      from l a9 a1 d(3) show ?thesis unfolding X by simp
    qed
    then show "re_match references_pattern s"
      unfolding re_match_def skip s0 .
  qed
qed

lemma reference_number_pattern_Nil: "\<not> re_match reference_number_pattern []"
  by (simp add: regex_eval)

text \<open>
  Once the references heading was seen, every later paragraph that is not empty and is
  not such a heading again is kept; before it, nothing is.
\<close>

lemma references_loop_in:
  "references_loop refs True ps =
     refs @ filter (\<lambda>p. p \<noteq> [] \<and> \<not> re_match references_pattern p) ps"
proof (induction ps arbitrary: refs)
  case Nil
  then show ?case by simp
next
  case (Cons p ps)
  then show ?case
    using reference_number_pattern_Nil by (cases "p = []") auto
qed

lemma references_loop_before:
  "\<forall>p \<in> set pre. \<not> re_match references_pattern p \<Longrightarrow>
     references_loop refs False (pre @ ps) = references_loop refs False ps"
  by (induction pre) auto

text \<open>
  C6, amended. Each of the six patterns for introduction, related work, methodology,
  results, discussion and conclusion accepts a text exactly when the text is whitespace,
  then nothing or the one digit of the pattern (1 to 6) with or without a full stop,
  then whitespace, then a text that starts with neither whitespace nor a digit and that
  the pattern accepts: the own number is optional, and no other number and no number of
  more than one digit is accepted. The references pattern accepts exactly whitespace,
  the word \<open>reference\<close> or \<open>references\<close> in any letter case, whitespace. Neither
  it nor the acknowledgments pattern accepts a text whose first character after the
  leading whitespace is a digit. After the first paragraph that the references pattern
  accepts, \<open>extract_references\<close> returns every later paragraph that is not empty and
  is not accepted by that pattern itself.
\<close>

theorem references_heading_unnumbered:
  "(re_match introduction_pattern s \<longleftrightarrow>
      optionally_numbered 49 (re_match introduction_pattern) s)
   \<and> (re_match related_work_pattern s \<longleftrightarrow>
      optionally_numbered 50 (re_match related_work_pattern) s)
   \<and> (re_match methodology_pattern s \<longleftrightarrow>
      optionally_numbered 51 (re_match methodology_pattern) s)
   \<and> (re_match results_pattern s \<longleftrightarrow>
      optionally_numbered 52 (re_match results_pattern) s)
   \<and> (re_match discussion_pattern s \<longleftrightarrow>
      optionally_numbered 53 (re_match discussion_pattern) s)
   \<and> (re_match conclusion_pattern s \<longleftrightarrow>
      optionally_numbered 54 (re_match conclusion_pattern) s)
   \<and> (re_match references_pattern s \<longleftrightarrow>
      (\<exists>a w b. s = a @ w @ b \<and> list_all is_space a \<and> list_all is_space b
         \<and> (list_all2 ci_eq (U ''reference'') w \<or> list_all2 ci_eq (U ''references'') w)))
   \<and> (list_all is_space a \<and> is_digit c \<longrightarrow>
        \<not> re_match references_pattern (a @ c # cs)
        \<and> \<not> re_match acknowledgments_pattern (a @ c # cs))
   \<and> (re_match references_pattern h \<and> (\<forall>p \<in> set pre. \<not> re_match references_pattern p) \<longrightarrow>
        extract_references (pre @ h # post) =
          filter (\<lambda>p. p \<noteq> [] \<and> \<not> re_match references_pattern p) post)"
proof -
  have "re_match references_pattern h \<and> (\<forall>p \<in> set pre. \<not> re_match references_pattern p) \<longrightarrow>
        extract_references (pre @ h # post) =
          filter (\<lambda>p. p \<noteq> [] \<and> \<not> re_match references_pattern p) post"
    using references_loop_before [of pre "[]" "h # post"] references_loop_in [of "[]" post]
    by (auto simp: extract_references_def)
  moreover have "list_all is_space a \<and> is_digit c \<longrightarrow>
        \<not> re_match references_pattern (a @ c # cs)
        \<and> \<not> re_match acknowledgments_pattern (a @ c # cs)"
    using unnumbered_patterns_no_digit [of a c cs] by blast
  ultimately show ?thesis
    using introduction_numbered [of s] related_work_numbered [of s] methodology_numbered [of s]
      results_numbered [of s] discussion_numbered [of s] conclusion_numbered [of s]
      references_pattern_accepts [of s]
    by (intro conjI)
qed

text \<open>Headings with and without their number, for the six numbered patterns.\<close>

lemma own_number_decomposition:
  "U ''1. Introduction'' = [] @ [49, 46] @ [32] @ U ''Introduction''"
  "U ''2 Related Work'' = [] @ [50] @ [32] @ U ''Related Work''"
  "U ''3. Methods'' = [] @ [51, 46] @ [32] @ U ''Methods''"
  "U '' 4.Results'' = [32] @ [52, 46] @ [] @ U ''Results''"
  "U ''5  Discussion'' = [] @ [53] @ [32, 32] @ U ''Discussion''"
  "U ''6. Conclusions'' = [] @ [54, 46] @ [32] @ U ''Conclusions''"
  by (simp_all add: U_def)

lemma unnumbered_headings:
  "re_match introduction_pattern (U ''Introduction'')"
  "re_match related_work_pattern (U ''Related Work'')"
  "re_match methodology_pattern (U ''Methods'')"
  "re_match results_pattern (U ''Results'')"
  "re_match discussion_pattern (U ''Discussion'')"
  "re_match conclusion_pattern (U ''Conclusions'')"
  by (simp_all add: regex_eval)

lemma optionally_numberedI:
  assumes "s = a @ num @ b @ t" "list_all is_space a" "num \<in> set [[], [n], [n, 46]]"
    "list_all is_space b" "t \<noteq> []" "\<not> is_space (hd t)" "\<not> is_digit (hd t)" "accepts t"
  shows "optionally_numbered n accepts s"
proof -
  from assms(5-7) have "\<exists>c cs. t = c # cs \<and> \<not> is_space c \<and> \<not> is_digit c"
    by (cases t) simp_all
  with assms(1-4,8) show ?thesis
    unfolding optionally_numbered_def by blast
qed

text \<open>
  A text that starts with a digit other than the one of the pattern, or with two digits,
  is not a heading with that optional number.
\<close>

lemma not_optionally_numbered:
  assumes "is_digit c" "c \<noteq> n \<or> (\<exists>c2 r. cs = c2 # r \<and> is_digit c2)"
  shows "\<not> optionally_numbered n accepts (c # cs)"
proof
  assume "optionally_numbered n accepts (c # cs)"
  then obtain a num b x xs where
    d: "c # cs = a @ num @ b @ x # xs" "list_all is_space a" "num \<in> set [[], [n], [n, 46]]"
      "list_all is_space b" "\<not> is_space x" "\<not> is_digit x"
    unfolding optionally_numbered_def by blast
  have nsp: "\<not> is_space c" using assms(1) by (rule digit_not_space)
  from d(1,2) nsp have a: "a = []" by (cases a) auto
  have bx: "b = [] \<and> y = x" if "\<not> is_space y" "y # ys = b @ x # xs" for y ys
    using that d(4) by (cases b) auto
  have n46: "\<not> is_digit 46" by (simp add: is_digit_def)
  from d(3) consider "num = []" | "num = [n]" | "num = [n, 46]" by auto
  then show False
  proof cases
    case 1
    with d(1) a have "c # cs = b @ x # xs" by simp
    from bx [OF nsp this] assms(1) d(6) show False by simp
  next
    case 2
    with d(1) a have c: "c = n" "cs = b @ x # xs" by simp_all
    with assms(2) obtain c2 r where c2: "cs = c2 # r" "is_digit c2" by blast
    then have "\<not> is_space c2" by (simp add: digit_not_space)
    from bx [OF this, of r] c c2 d(6) show False by simp
  next
    case 3
    with d(1) a have c: "c = n" "cs = 46 # b @ x # xs" by simp_all
    with assms(2) n46 show False by auto
  qed
qed

text \<open>
  Each of the six numbered patterns accepts a heading with its own number; the numbers
  12 and 199, and the number 7 or the number of another pattern, are not accepted. The
  heading \<open>References\<close> is accepted in any letter case and with whitespace around it,
  \<open>7. References\<close> is not, and on the scenario of the specification the one
  paragraph after the heading is the one reference.
\<close>

theorem references_heading_unnumbered_witness:
  "re_match introduction_pattern (U ''1. Introduction'')
   \<and> re_match related_work_pattern (U ''2 Related Work'')
   \<and> re_match methodology_pattern (U ''3. Methods'')
   \<and> re_match results_pattern (U '' 4.Results'')
   \<and> re_match discussion_pattern (U ''5  Discussion'')
   \<and> re_match conclusion_pattern (U ''6. Conclusions'')
   \<and> \<not> re_match introduction_pattern (U ''12. Introduction'')
   \<and> \<not> re_match introduction_pattern (U ''199 Introduction'')
   \<and> \<not> re_match introduction_pattern (U ''7. Introduction'')
   \<and> \<not> re_match conclusion_pattern (U ''1. Conclusion'')
   \<and> re_match references_pattern (U ''References'')
   \<and> re_match references_pattern (U '' REFERENCE '')
   \<and> \<not> re_match references_pattern (U ''7. References'')
   \<and> \<not> re_match acknowledgments_pattern (U '' 8 Acknowledgments'')
   \<and> extract_references example_paragraphs = [U ''[1] Smith 2020'']"
proof -
  note T = references_heading_unnumbered
  note T1 = T [THEN conjunct1]
  note T2 = T [THEN conjunct2, THEN conjunct1]
  note T3 = T [THEN conjunct2, THEN conjunct2, THEN conjunct1]
  note T4 = T [THEN conjunct2, THEN conjunct2, THEN conjunct2, THEN conjunct1]
  note T5 = T [THEN conjunct2, THEN conjunct2, THEN conjunct2, THEN conjunct2, THEN conjunct1]
  note T6 = T [THEN conjunct2, THEN conjunct2, THEN conjunct2, THEN conjunct2, THEN conjunct2,
      THEN conjunct1]
  note T7 = T [THEN conjunct2, THEN conjunct2, THEN conjunct2, THEN conjunct2, THEN conjunct2,
      THEN conjunct2, THEN conjunct1]
  note T8 = T [THEN conjunct2, THEN conjunct2, THEN conjunct2, THEN conjunct2, THEN conjunct2,
      THEN conjunct2, THEN conjunct2, THEN conjunct1]
  note T9 = T [THEN conjunct2, THEN conjunct2, THEN conjunct2, THEN conjunct2, THEN conjunct2,
      THEN conjunct2, THEN conjunct2, THEN conjunct2]
  note chars = U_def is_space_def is_digit_def
  have "optionally_numbered 49 (re_match introduction_pattern) (U ''1. Introduction'')"
    by (rule optionally_numberedI [OF own_number_decomposition(1)])
      (simp_all add: unnumbered_headings, simp_all add: chars)
  then have a1: "re_match introduction_pattern (U ''1. Introduction'')"
    using T1 [of "U ''1. Introduction''"] by blast
  have "optionally_numbered 50 (re_match related_work_pattern) (U ''2 Related Work'')"
    by (rule optionally_numberedI [OF own_number_decomposition(2)])
      (simp_all add: unnumbered_headings, simp_all add: chars)
  then have a2: "re_match related_work_pattern (U ''2 Related Work'')"
    using T2 [of "U ''2 Related Work''"] by blast
  have "optionally_numbered 51 (re_match methodology_pattern) (U ''3. Methods'')"
    by (rule optionally_numberedI [OF own_number_decomposition(3)])
      (simp_all add: unnumbered_headings, simp_all add: chars)
  then have a3: "re_match methodology_pattern (U ''3. Methods'')"
    using T3 [of "U ''3. Methods''"] by blast
  have "optionally_numbered 52 (re_match results_pattern) (U '' 4.Results'')"
    by (rule optionally_numberedI [OF own_number_decomposition(4)])
      (simp_all add: unnumbered_headings, simp_all add: chars)
  then have a4: "re_match results_pattern (U '' 4.Results'')"
    using T4 [of "U '' 4.Results''"] by blast
  have "optionally_numbered 53 (re_match discussion_pattern) (U ''5  Discussion'')"
    by (rule optionally_numberedI [OF own_number_decomposition(5)])
      (simp_all add: unnumbered_headings, simp_all add: chars)
  then have a5: "re_match discussion_pattern (U ''5  Discussion'')"
    using T5 [of "U ''5  Discussion''"] by blast
  have "optionally_numbered 54 (re_match conclusion_pattern) (U ''6. Conclusions'')"
    by (rule optionally_numberedI [OF own_number_decomposition(6)])
      (simp_all add: unnumbered_headings, simp_all add: chars)
  then have a6: "re_match conclusion_pattern (U ''6. Conclusions'')"
    using T6 [of "U ''6. Conclusions''"] by blast
  have "\<not> optionally_numbered 49 (re_match introduction_pattern) (U ''12. Introduction'')"
    using not_optionally_numbered [of 49 49 "U ''2. Introduction''"]
    by (simp add: chars)
  then have r1: "\<not> re_match introduction_pattern (U ''12. Introduction'')"
    using T1 [of "U ''12. Introduction''"] by blast
  have "\<not> optionally_numbered 49 (re_match introduction_pattern) (U ''199 Introduction'')"
    using not_optionally_numbered [of 49 49 "U ''99 Introduction''"]
    by (simp add: chars)
  then have r2: "\<not> re_match introduction_pattern (U ''199 Introduction'')"
    using T1 [of "U ''199 Introduction''"] by blast
  have "\<not> optionally_numbered 49 (re_match introduction_pattern) (U ''7. Introduction'')"
    using not_optionally_numbered [of 55 49 "U ''. Introduction''"]
    by (simp add: chars)
  then have r3: "\<not> re_match introduction_pattern (U ''7. Introduction'')"
    using T1 [of "U ''7. Introduction''"] by blast
  have "\<not> optionally_numbered 54 (re_match conclusion_pattern) (U ''1. Conclusion'')"
    using not_optionally_numbered [of 49 54 "U ''. Conclusion''"]
    by (simp add: chars)
  then have r4: "\<not> re_match conclusion_pattern (U ''1. Conclusion'')"
    using T6 [of "U ''1. Conclusion''"] by blast
  have "\<exists>a w b. U ''References'' = a @ w @ b \<and> list_all is_space a \<and> list_all is_space b
      \<and> (list_all2 ci_eq (U ''reference'') w \<or> list_all2 ci_eq (U ''references'') w)"
    by (intro exI [of _ "[]"] exI [of _ "U ''References''"]) (simp add: U_def ci_eq_def)
  then have h1: "re_match references_pattern (U ''References'')"
    using T7 [of "U ''References''"] by blast
  have "\<exists>a w b. U '' REFERENCE '' = a @ w @ b \<and> list_all is_space a \<and> list_all is_space b
      \<and> (list_all2 ci_eq (U ''reference'') w \<or> list_all2 ci_eq (U ''references'') w)"
    by (intro exI [of _ "[32]"] exI [of _ "U ''REFERENCE''"] exI [of _ "[32]"])
      (simp add: U_def ci_eq_def is_space_def)
  then have h2: "re_match references_pattern (U '' REFERENCE '')"
    using T7 [of "U '' REFERENCE ''"] by blast
  have h3: "\<not> re_match references_pattern (U ''7. References'')"
    using T8 [of "[]" 55 "U ''. References''"] by (simp add: chars)
  have h4: "\<not> re_match acknowledgments_pattern (U '' 8 Acknowledgments'')"
    using T8 [of "[32]" 56 "U '' Acknowledgments''"] by (simp add: chars)
  have split: "example_paragraphs =
      take 6 example_paragraphs @ U ''References'' # [U ''[1] Smith 2020'']"
    by (simp add: example_paragraphs_def)
  have before: "\<forall>p \<in> set (take 6 example_paragraphs). \<not> re_match references_pattern p"
    by (simp add: example_paragraphs_def regex_eval)
  have entry: "filter (\<lambda>p. p \<noteq> [] \<and> \<not> re_match references_pattern p) [U ''[1] Smith 2020'']
      = [U ''[1] Smith 2020'']"
    by (simp add: regex_eval)
  have e: "extract_references example_paragraphs = [U ''[1] Smith 2020'']"
    using T9 [of "U ''References''" "take 6 example_paragraphs" "[U ''[1] Smith 2020'']"]
      split h1 before entry
    by simp
  from a1 a2 a3 a4 a5 a6 r1 r2 r3 r4 h1 h2 h3 h4 e show ?thesis
    by (intro conjI)
qed

section \<open>The numbering of rendered references\<close>

text \<open>
  C4 on the reference \<open>[1] Smith 2020\<close>: the pattern that removes an existing number
  asks for a full stop or a closing parenthesis after the number, so the bracketed number
  followed by a space stays, and the rendered entry is \<open>[1] [1] Smith 2020\<close>. The
  prefixes \<open>1. \<close> and \<open>1) \<close> are removed.
\<close>

theorem add_references_bracket_number_kept:
  "document (add_references init_applier [U ''[1] Smith 2020'']) =
     [heading_paragraph (U ''References'') 1,
      \<lparr>pstyle = None, palignment = None,
       runs = [text_run (U ''[1] '') (Some 9), text_run (U ''[1] Smith 2020'') (Some 9)]\<rparr>]
   \<and> map (re_sub_prefix reference_number_pattern) [U ''[1] Smith'', U ''1. Smith'', U ''1) Smith'']
       = [U ''[1] Smith'', U ''Smith'', U ''Smith'']"
proof -
  have "re_sub_prefix reference_number_pattern (U ''[1] Smith 2020'') = U ''[1] Smith 2020''"
    by (simp add: regex_eval)
  moreover have "U (''['' @ str_nat 1 @ ''] '') = U ''[1] ''"
    by (simp add: str_nat.simps digit_char_def)
  moreover have
    "map (re_sub_prefix reference_number_pattern) [U ''[1] Smith'', U ''1. Smith'', U ''1) Smith'']
       = [U ''[1] Smith'', U ''Smith'', U ''Smith'']"
    by (simp add: regex_eval)
  ultimately show ?thesis
    by (simp add: add_references_def add_heading_def add_paragraph_def log_change_def
        reference_paragraph_def init_applier_def)
qed

section \<open>The state after a render pass\<close>

text \<open>
  What each step of the style applier adds to the document and to the log, and what it
  leaves as it was.
\<close>

lemma add_body_paragraphs_state:
  "document (add_body_paragraphs s ps) =
     document s @ map body_paragraph (filter (\<lambda>t. t \<noteq> []) (map strip ps))
   \<and> changes_log (add_body_paragraphs s ps) = changes_log s
   \<and> figure_counter (add_body_paragraphs s ps) = figure_counter s"
  by (induction ps arbitrary: s) (simp_all add: add_body_paragraph_def add_paragraph_def)

lemma add_section_state:
  "document (add_section s sec) = document s @ section_paragraphs sec
   \<and> changes_log (add_section s sec) = changes_log s
   \<and> figure_counter (add_section s sec) = figure_counter s"
  by (simp add: add_section_def section_paragraphs_def Let_def add_body_paragraphs_state
      add_heading_def add_paragraph_def)

lemma add_sections_state:
  "document (add_sections s secs) = document s @ concat (map section_paragraphs secs)
   \<and> changes_log (add_sections s secs) = changes_log s
   \<and> figure_counter (add_sections s secs) = figure_counter s"
  by (induction secs arbitrary: s) (simp_all add: add_section_state)

lemma add_reference_entries_state:
  "document (add_reference_entries s i refs) = document s @ reference_paragraphs i refs
   \<and> changes_log (add_reference_entries s i refs) = changes_log s
   \<and> figure_counter (add_reference_entries s i refs) = figure_counter s"
  by (induction refs arbitrary: s i) (simp_all add: add_paragraph_def)

lemma insert_images_state:
  "document (insert_images_at_positions exists s imgs) =
     document s @ figure_paragraphs exists (figure_counter s) imgs
   \<and> changes_log (insert_images_at_positions exists s imgs) =
       changes_log s @ figure_log (figure_counter s) imgs
   \<and> figure_counter (insert_images_at_positions exists s imgs) = figure_counter s + length imgs"
  by (induction imgs arbitrary: s)
    (simp_all add: add_figure_def Let_def add_paragraph_def log_change_def)

lemma apply_springer_style_state:
  "document (apply_springer_style s parsed) =
     title_part parsed @ authors_part parsed @ abstract_part parsed @ keywords_part parsed
     @ sections_part parsed @ references_part parsed
   \<and> changes_log (apply_springer_style s parsed) = changes_log s @ fields_log parsed
   \<and> figure_counter (apply_springer_style s parsed) = 0"
proof -
  define s0 where "s0 = (create_new_document s)\<lparr>figure_counter := 0, table_counter := 0\<rparr>"
  define s1 where "s1 = (if title parsed \<noteq> [] then add_title s0 (title parsed) else s0)"
  define s2 where "s2 = (if authors parsed \<noteq> [] then add_authors s1 (authors parsed) else s1)"
  define s3 where "s3 = add_abstract s2 (abstract parsed)"
  define s4 where "s4 = (if keywords parsed \<noteq> [] then add_keywords s3 (keywords parsed) else s3)"
  define s5 where "s5 = (if sections parsed \<noteq> [] then add_sections s4 (sections parsed) else s4)"
  define s6 where "s6 = (if references parsed \<noteq> [] then add_references s5 (references parsed) else s5)"
  have r: "apply_springer_style s parsed = s6"
    by (simp add: apply_springer_style_def Let_def s0_def s1_def s2_def s3_def s4_def s5_def
        s6_def)
  have 0: "document s0 = []"
    "changes_log s0 = changes_log s @ [''Page margins set to 2.5cm all sides'']"
    "figure_counter s0 = 0"
    by (simp_all add: s0_def create_new_document_def log_change_def)
  have 1: "document s1 = document s0 @ title_part parsed"
    "changes_log s1 = changes_log s0
       @ (if title parsed \<noteq> [] then [''Title formatted (14pt, Bold, Center)''] else [])"
    "figure_counter s1 = figure_counter s0"
    by (simp_all add: s1_def add_title_def add_paragraph_def log_change_def title_part_def)
  have 2: "document s2 = document s1 @ authors_part parsed"
    "changes_log s2 = changes_log s1
       @ (if authors parsed \<noteq> [] then [''Authors formatted with superscript affiliations'']
          else [])"
    "figure_counter s2 = figure_counter s1"
    by (simp_all add: s2_def add_authors_def add_paragraph_def log_change_def authors_part_def)
  have 3: "document s3 = document s2 @ abstract_part parsed"
    \<open>changes_log s3 = changes_log s2
       @ (if atext (abstract parsed) \<noteq> []
          then [''Abstract prefixed with "Abstract." (10pt, Italic)''] else [])\<close>
    "figure_counter s3 = figure_counter s2"
    by (simp_all add: s3_def add_abstract_def Let_def add_paragraph_def log_change_def
        abstract_part_def)
  have 4: "document s4 = document s3 @ keywords_part parsed"
    "changes_log s4 = changes_log s3
       @ (if keywords parsed \<noteq> []
          then [''Keywords formatted ('' @ str_nat (length (keywords parsed)) @ '' keywords)'']
          else [])"
    "figure_counter s4 = figure_counter s3"
    by (simp_all add: s4_def add_keywords_def add_paragraph_def log_change_def keywords_part_def)
  have 5: "document s5 = document s4 @ sections_part parsed"
    "changes_log s5 = changes_log s4"
    "figure_counter s5 = figure_counter s4"
    by (simp_all add: s5_def add_sections_state sections_part_def)
  have 6: "document s6 = document s5 @ references_part parsed"
    "changes_log s6 = changes_log s5
       @ (if references parsed \<noteq> []
          then [''References formatted: '' @ str_nat (length (references parsed)) @ '' items'']
          else [])"
    "figure_counter s6 = figure_counter s5"
    by (simp_all add: s6_def add_references_def add_reference_entries_state add_heading_def
        add_paragraph_def log_change_def references_part_def)
  show ?thesis
    unfolding r by (simp only: 0 1 2 3 4 5 6 fields_log_def append_assoc append_Nil
        append_Cons simp_thms)
qed

lemma render_state:
  "document (render exists parsed imgs) =
     title_part parsed @ authors_part parsed @ abstract_part parsed @ keywords_part parsed
     @ sections_part parsed @ references_part parsed @ figure_paragraphs exists 0 imgs
   \<and> changes_log (render exists parsed imgs) = fields_log parsed @ figure_log 0 imgs
   \<and> figure_counter (render exists parsed imgs) = length imgs"
  by (cases imgs)
    (simp_all add: render_def Let_def insert_images_state apply_springer_style_state
      init_applier_def del: insert_images_at_positions.simps)

text \<open>The document and the log of the scenario of the specification with one image.\<close>

lemma example_document:
  "document (render (\<lambda>p. True) example_parsed example_images) =
     [title_paragraph (U ''A Study of X''),
      authors_paragraph
        [\<lparr>name = U ''Jane Doe'', email = Some (U ''jane@x.edu''), affiliation = None\<rparr>],
      abstract_paragraph (U ''This work presents...''),
      keywords_paragraph [U ''ml'', U ''nlp''],
      heading_paragraph (U ''1. Introduction'') 1,
      body_paragraph (U ''Text.''),
      heading_paragraph (U ''References'') 1,
      reference_paragraph 1 (U ''[1] Smith 2020''),
      picture_paragraph (U ''out/fig_1_chart.png''),
      caption_paragraph 1 (U ''Chart'')]"
proof -
  have "split_on (\<lambda>c. c = newline) (U ''Text.'') = [U ''Text.'']"
    by (simp add: U_def newline_def)
  moreover have "strip (U ''Text.'') = U ''Text.''"
    by (simp add: strip_def U_def is_space_def)
  moreover have "U ''Text.'' \<noteq> []" "U ''Chart'' \<noteq> []" "U ''A Study of X'' \<noteq> []"
    "U ''This work presents...'' \<noteq> []"
    by (simp_all add: U_def)
  ultimately show ?thesis
    by (simp add: render_state example_parsed_def example_images_def title_part_def
        authors_part_def abstract_part_def keywords_part_def sections_part_def
        section_paragraphs_def references_part_def get_heading_level_def level_1_sections_def)
qed

lemma example_log:
  "changes_log (render (\<lambda>p. True) example_parsed example_images) =
     [''Page margins set to 2.5cm all sides'',
      ''Title formatted (14pt, Bold, Center)'',
      ''Authors formatted with superscript affiliations'',
      ''Abstract prefixed with \"Abstract.\" (10pt, Italic)'',
      ''Keywords formatted (2 keywords)'',
      ''References formatted: 1 items'',
      ''Figure 1 inserted with caption'']"
proof -
  have "U ''A Study of X'' \<noteq> []" "U ''This work presents...'' \<noteq> []"
    by (simp_all add: U_def)
  then show ?thesis
    by (simp add: render_state fields_log_def example_parsed_def example_images_def
        str_nat.simps digit_char_def)
qed

section \<open>The order of a rendered document\<close>

text \<open>
  C1, as the specification states it, puts the images after the sections and the
  references last. \<open>apply_springer_style\<close> appends the references itself, and
  \<open>process_document\<close> inserts the images after it has returned: on the scenario of the
  specification with one image the references come before the picture and its caption,
  which are the last two paragraphs, and the document is not the one of the claimed
  order.
\<close>

theorem references_before_figures_counterexample:
  "document (render (\<lambda>p. True) example_parsed example_images) =
     [title_paragraph (U ''A Study of X''),
      authors_paragraph
        [\<lparr>name = U ''Jane Doe'', email = Some (U ''jane@x.edu''), affiliation = None\<rparr>],
      abstract_paragraph (U ''This work presents...''),
      keywords_paragraph [U ''ml'', U ''nlp''],
      heading_paragraph (U ''1. Introduction'') 1,
      body_paragraph (U ''Text.''),
      heading_paragraph (U ''References'') 1,
      reference_paragraph 1 (U ''[1] Smith 2020''),
      picture_paragraph (U ''out/fig_1_chart.png''),
      caption_paragraph 1 (U ''Chart'')]
   \<and> document (render (\<lambda>p. True) example_parsed example_images) \<noteq>
       title_part example_parsed @ authors_part example_parsed @ abstract_part example_parsed
       @ keywords_part example_parsed @ sections_part example_parsed
       @ figure_paragraphs (\<lambda>p. True) 0 example_images @ references_part example_parsed"
proof -
  have "split_on (\<lambda>c. c = newline) (U ''Text.'') = [U ''Text.'']"
    by (simp add: U_def newline_def)
  moreover have "strip (U ''Text.'') = U ''Text.''"
    by (simp add: strip_def U_def is_space_def)
  moreover have "U ''Text.'' \<noteq> []" "U ''Chart'' \<noteq> []" "U ''A Study of X'' \<noteq> []"
    "U ''This work presents...'' \<noteq> []"
    by (simp_all add: U_def)
  ultimately have claimed:
    "title_part example_parsed @ authors_part example_parsed @ abstract_part example_parsed
       @ keywords_part example_parsed @ sections_part example_parsed
       @ figure_paragraphs (\<lambda>p. True) 0 example_images @ references_part example_parsed =
     [title_paragraph (U ''A Study of X''),
      authors_paragraph
        [\<lparr>name = U ''Jane Doe'', email = Some (U ''jane@x.edu''), affiliation = None\<rparr>],
      abstract_paragraph (U ''This work presents...''),
      keywords_paragraph [U ''ml'', U ''nlp''],
      heading_paragraph (U ''1. Introduction'') 1,
      body_paragraph (U ''Text.''),
      picture_paragraph (U ''out/fig_1_chart.png''),
      caption_paragraph 1 (U ''Chart''),
      heading_paragraph (U ''References'') 1,
      reference_paragraph 1 (U ''[1] Smith 2020'')]"
    by (simp add: example_parsed_def example_images_def title_part_def
        authors_part_def abstract_part_def keywords_part_def sections_part_def
        section_paragraphs_def references_part_def get_heading_level_def level_1_sections_def)
  have "heading_paragraph (U ''References'') 1 \<noteq> picture_paragraph (U ''out/fig_1_chart.png'')"
    by (simp add: heading_paragraph_def picture_paragraph_def)
  then show ?thesis
    unfolding claimed example_document by simp
qed

text \<open>
  C1, amended: one render pass appends, in this order, the title, the authors, the
  abstract, the keywords (each when it is not empty), the sections in the order of their
  list, the references, and last all the images.
\<close>

theorem render_order:
  "document (render exists parsed images_data) =
     title_part parsed @ authors_part parsed @ abstract_part parsed @ keywords_part parsed
     @ sections_part parsed @ references_part parsed
     @ figure_paragraphs exists 0 images_data"
  by (simp add: render_state)

text \<open>On the scenario: the two paragraphs of the references, then the two of the figure.\<close>

theorem render_order_witness:
  "document (render (\<lambda>p. True) example_parsed example_images) =
     (title_part example_parsed @ authors_part example_parsed @ abstract_part example_parsed
      @ keywords_part example_parsed @ sections_part example_parsed)
     @ [heading_paragraph (U ''References'') 1, reference_paragraph 1 (U ''[1] Smith 2020'')]
     @ [picture_paragraph (U ''out/fig_1_chart.png''), caption_paragraph 1 (U ''Chart'')]"
proof -
  have "U ''Chart'' \<noteq> []" by (simp add: U_def)
  then show ?thesis
    using render_order [of "\<lambda>p. True" example_parsed example_images]
    by (simp add: references_part_def example_parsed_def example_images_def)
qed

section \<open>The log of changes\<close>

text \<open>
  C9, as the specification states it, has every formatting action append one entry to
  the log. \<open>add_heading\<close> and \<open>add_body_paragraph\<close> append none: on the scenario the
  log has seven entries, it is the same log when the parsed content has no section, and
  the document with the section has two more paragraphs, the heading, set in bold at 12
  points without its number, and the body paragraph.
\<close>

theorem unlogged_sections_counterexample:
  "changes_log (render (\<lambda>p. True) example_parsed example_images) =
     [''Page margins set to 2.5cm all sides'',
      ''Title formatted (14pt, Bold, Center)'',
      ''Authors formatted with superscript affiliations'',
      ''Abstract prefixed with \"Abstract.\" (10pt, Italic)'',
      ''Keywords formatted (2 keywords)'',
      ''References formatted: 1 items'',
      ''Figure 1 inserted with caption'']
   \<and> changes_log (render (\<lambda>p. True) (example_parsed\<lparr>sections := []\<rparr>) example_images) =
       changes_log (render (\<lambda>p. True) example_parsed example_images)
   \<and> document (render (\<lambda>p. True) example_parsed example_images) =
       take 4 (document (render (\<lambda>p. True) (example_parsed\<lparr>sections := []\<rparr>) example_images))
       @ [heading_paragraph (U ''1. Introduction'') 1, body_paragraph (U ''Text.'')]
       @ drop 4 (document (render (\<lambda>p. True) (example_parsed\<lparr>sections := []\<rparr>) example_images))
   \<and> runs (heading_paragraph (U ''1. Introduction'') 1) =
       [\<lparr>rcontent = Text (U ''Introduction''), font_size = Some 12, bold = True, italic = False,
         superscript = False\<rparr>]"
proof -
  have "U ''A Study of X'' \<noteq> []" "U ''This work presents...'' \<noteq> []" "U ''Chart'' \<noteq> []"
    by (simp_all add: U_def)
  then have without:
    "document (render (\<lambda>p. True) (example_parsed\<lparr>sections := []\<rparr>) example_images) =
       [title_paragraph (U ''A Study of X''),
        authors_paragraph
          [\<lparr>name = U ''Jane Doe'', email = Some (U ''jane@x.edu''), affiliation = None\<rparr>],
        abstract_paragraph (U ''This work presents...''),
        keywords_paragraph [U ''ml'', U ''nlp''],
        heading_paragraph (U ''References'') 1,
        reference_paragraph 1 (U ''[1] Smith 2020''),
        picture_paragraph (U ''out/fig_1_chart.png''),
        caption_paragraph 1 (U ''Chart'')]"
    by (simp add: render_state example_parsed_def example_images_def title_part_def
        authors_part_def abstract_part_def keywords_part_def sections_part_def
        references_part_def)
  have log: "changes_log (render (\<lambda>p. True) (example_parsed\<lparr>sections := []\<rparr>) example_images) =
       changes_log (render (\<lambda>p. True) example_parsed example_images)"
    by (simp add: render_state fields_log_def)
  have heading: "runs (heading_paragraph (U ''1. Introduction'') 1) =
       [\<lparr>rcontent = Text (U ''Introduction''), font_size = Some 12, bold = True, italic = False,
         superscript = False\<rparr>]"
    by (simp add: heading_paragraph_def text_run_def re_sub_prefix_def heading_number_pattern_def
        lit_def U_def is_space_def is_digit_def)
  show ?thesis
    unfolding log without example_document example_log using heading by simp
qed

text \<open>
  C9, amended: after a render pass the log holds one entry for the page layout, one
  entry for each of the title, the authors, the abstract, the keywords and the
  references that is not empty, in this order, and one entry for each figure; the
  sections, their headings and their body paragraphs add no entry. With the authors,
  the abstract text and the keywords empty and everything else the same, the log is the
  same without the entries of these three fields.
\<close>

theorem changes_log_entries:
  "changes_log (render exists parsed images_data) = fields_log parsed @ figure_log 0 images_data
   \<and> changes_log
         (render exists (parsed\<lparr>authors := [], abstract := (abstract parsed)\<lparr>atext := []\<rparr>,
                                keywords := []\<rparr>) images_data) =
       [''Page margins set to 2.5cm all sides'']
       @ (if title parsed \<noteq> [] then [''Title formatted (14pt, Bold, Center)''] else [])
       @ (if references parsed \<noteq> []
          then [''References formatted: '' @ str_nat (length (references parsed)) @ '' items'']
          else [])
       @ figure_log 0 images_data
   \<and> changes_log (render exists (parsed\<lparr>sections := secs\<rparr>) images_data) =
       changes_log (render exists parsed images_data)"
  by (simp add: render_state fields_log_def)

text \<open>On the scenario: seven entries, and four without authors, abstract and keywords.\<close>

theorem changes_log_entries_witness:
  "changes_log (render (\<lambda>p. True) example_parsed example_images) =
     [''Page margins set to 2.5cm all sides'',
      ''Title formatted (14pt, Bold, Center)'',
      ''Authors formatted with superscript affiliations'',
      ''Abstract prefixed with \"Abstract.\" (10pt, Italic)'',
      ''Keywords formatted (2 keywords)'',
      ''References formatted: 1 items'',
      ''Figure 1 inserted with caption'']
   \<and> changes_log
         (render (\<lambda>p. True)
            (example_parsed\<lparr>authors := [], abstract := (abstract example_parsed)\<lparr>atext := []\<rparr>,
                            keywords := []\<rparr>) example_images) =
     [''Page margins set to 2.5cm all sides'',
      ''Title formatted (14pt, Bold, Center)'',
      ''References formatted: 1 items'',
      ''Figure 1 inserted with caption'']"
proof -
  have "U ''A Study of X'' \<noteq> []" "U ''This work presents...'' \<noteq> []"
    by (simp_all add: U_def)
  then show ?thesis
    using changes_log_entries [of "\<lambda>p. True" example_parsed example_images "[]"]
    by (simp add: fields_log_def example_parsed_def example_images_def str_nat.simps
        digit_char_def)
qed

end
